theory Spec2Isabelle
  imports Complex_Main "HOL-Library.Word" "HOL-Library.Monad_Syntax" "HOL-Library.Multiset"
begin

unbundle bit_operations_syntax

section \<open>Data model of am\_cassowary.h\<close>

text \<open>
  The solver of \<^verbatim>\<open>am_cassowary.h\<close> is embedded function by function.

  \<^item> \<^verbatim>\<open>amcw_Num\<close> (a C \<^verbatim>\<open>double\<close>) is modelled by the exact rationals: the
    comparisons and the control flow are those of the source, rounding, infinities and
    NaN are not modelled.
  \<^item> A function that does not return normally (a failed \<^verbatim>\<open>assert\<close>, a dereference
    of a null or dangling pointer, a read outside a table, a loop that runs forever) has the
    value \<open>None\<close>.
  \<^item> A hash table keeps its slots as a list, \<open>hash\<close>; the C field \<^verbatim>\<open>size\<close> is the
    length of that list. The C code addresses slots by byte offsets that are multiples of
    \<^verbatim>\<open>entry_size\<close>; the model counts in slots, so \<open>e_next\<close> and \<open>lastfree\<close> are
    the C values divided by \<^verbatim>\<open>entry_size\<close>.
  \<^item> \<^verbatim>\<open>amcw_Var\<close> and \<^verbatim>\<open>amcw_Constraint\<close> objects live in two stores of the
    solver, \<open>var_mem\<close> and \<open>cons_mem\<close>; a pointer is a natural number, \<open>0\<close> is
    \<^verbatim>\<open>NULL\<close> and \<open>p > 0\<close> names the object at position \<open>p - 1\<close>. There is one
    solver, so the \<^verbatim>\<open>solver\<close> back pointers of the objects are left out.
\<close>

type_synonym amcw_Num = rat

definition AMCW_OK :: int where "AMCW_OK = 0"
definition AMCW_FAILED :: int where "AMCW_FAILED = -1"
definition AMCW_UNSATISFIED :: int where "AMCW_UNSATISFIED = -2"
definition AMCW_UNBOUND :: int where "AMCW_UNBOUND = -3"

definition AMCW_LESSEQUAL :: int where "AMCW_LESSEQUAL = 1"
definition AMCW_EQUAL :: int where "AMCW_EQUAL = 2"
definition AMCW_GREATEQUAL :: int where "AMCW_GREATEQUAL = 3"

definition AMCW_REQUIRED :: amcw_Num where "AMCW_REQUIRED = 1000000000"
definition AMCW_STRONG :: amcw_Num where "AMCW_STRONG = 1000000"
definition AMCW_MEDIUM :: amcw_Num where "AMCW_MEDIUM = 1000"
definition AMCW_WEAK :: amcw_Num where "AMCW_WEAK = 1"

definition AMCW_EXTERNAL :: "2 word" where "AMCW_EXTERNAL = 0"
definition AMCW_SLACK :: "2 word" where "AMCW_SLACK = 1"
definition AMCW_ERROR :: "2 word" where "AMCW_ERROR = 2"
definition AMCW_DUMMY :: "2 word" where "AMCW_DUMMY = 3"

definition AMCW_MIN_HASHSIZE :: nat where "AMCW_MIN_HASHSIZE = 4"

text \<open>\<^verbatim>\<open>(~(size_t)0)-100\<close> for a 64-bit \<^verbatim>\<open>size_t\<close>.\<close>

definition AMCW_MAX_SIZET :: "64 word" where "AMCW_MAX_SIZET = NOT 0 - 100"

text \<open>\<^verbatim>\<open>DBL_MAX\<close>, that is \<open>2 ^ 1024 - 2 ^ 971\<close>.\<close>

definition AMCW_NUM_MAX :: amcw_Num where
  "AMCW_NUM_MAX =
     179769313486231570814527423731704356798070567525844996598917476803157260780028538760589558632766878171540458953514382464234321326889464182768467546703537516986049910576551282076245490090389328944075868508455133942304583236903222948165808559332123348274797826204144723168738177180919299881250404026184124858368"

definition AMCW_NUM_EPS :: amcw_Num where "AMCW_NUM_EPS = 1 / 1000000"

text \<open>The bit field \<^verbatim>\<open>struct amcw_Symbol { unsigned id : 30; unsigned type : 2; }\<close>.\<close>

record amcw_Symbol =
  sym_id :: "30 word"
  sym_type :: "2 word"

record 'a amcw_Entry =
  e_next :: int
  key :: amcw_Symbol
  payload :: 'a

text \<open>
  \<open>count\<close> is a \<^verbatim>\<open>size_t\<close> that \<^verbatim>\<open>amcw_delkey\<close> decrements without a check,
  so it is a 64-bit word. \<open>entry_size\<close> is the C \<^verbatim>\<open>sizeof\<close> of a slot in bytes, a
  \<^verbatim>\<open>size_t\<close> as well; only \<^verbatim>\<open>amcw_hashsize\<close> reads it.
\<close>

record 'a amcw_Table =
  count :: "64 word"
  entry_size :: "64 word"
  lastfree :: nat
  hash :: "'a amcw_Entry list"

type_synonym amcw_Term = "amcw_Num amcw_Entry"

record amcw_RowBody =
  infeasible_next :: amcw_Symbol
  terms :: "amcw_Num amcw_Table"
  row_constant :: amcw_Num

type_synonym amcw_Row = "amcw_RowBody amcw_Entry"

type_synonym var_ptr = nat
type_synonym cons_ptr = nat

record amcw_Var =
  sym :: amcw_Symbol
  dirty_next :: amcw_Symbol
  refcount :: "32 word"
  constraint :: cons_ptr
  edit_value :: amcw_Num
  var_value :: amcw_Num

record amcw_Constraint =
  expression :: amcw_Row
  marker :: amcw_Symbol
  other :: amcw_Symbol
  relation :: int
  strength :: amcw_Num

record amcw_Solver =
  objective :: amcw_Row
  vars :: "var_ptr amcw_Table"
  constraints :: "cons_ptr amcw_Table"
  rows :: "amcw_RowBody amcw_Table"
  symbol_count :: "32 word"
  constraint_count :: "32 word"
  auto_update :: "32 word"
  infeasible_rows :: amcw_Symbol
  dirty_vars :: amcw_Symbol
  var_mem :: "amcw_Var list"
  cons_mem :: "amcw_Constraint list"

section \<open>Utilities\<close>

definition amcw_isexternal :: "amcw_Symbol \<Rightarrow> bool" where
  "amcw_isexternal k = (sym_type k = AMCW_EXTERNAL)"

definition amcw_isslack :: "amcw_Symbol \<Rightarrow> bool" where
  "amcw_isslack k = (sym_type k = AMCW_SLACK)"

definition amcw_iserror :: "amcw_Symbol \<Rightarrow> bool" where
  "amcw_iserror k = (sym_type k = AMCW_ERROR)"

definition amcw_isdummy :: "amcw_Symbol \<Rightarrow> bool" where
  "amcw_isdummy k = (sym_type k = AMCW_DUMMY)"

definition amcw_ispivotable :: "amcw_Symbol \<Rightarrow> bool" where
  "amcw_ispivotable k = (amcw_isslack k \<or> amcw_iserror k)"

definition amcw_approx :: "amcw_Num \<Rightarrow> amcw_Num \<Rightarrow> bool" where
  "amcw_approx a b = (if a > b then a - b < AMCW_NUM_EPS else b - a < AMCW_NUM_EPS)"

definition amcw_nearzero :: "amcw_Num \<Rightarrow> bool" where
  "amcw_nearzero a = amcw_approx a 0"

definition amcw_null :: amcw_Symbol where
  "amcw_null = \<lparr>sym_id = 0, sym_type = 0\<rparr>"

text \<open>
  \<^verbatim>\<open>amcw_newsymbol\<close>: the pre-increment wraps at 32 bits, an id above
  \<^verbatim>\<open>0x3FFFFFFF\<close> restarts the counter at 1, and the id is stored in a 30-bit field.
  The \<^verbatim>\<open>assert\<close> on the kind cannot fail for a 2-bit kind.
\<close>

definition amcw_newsymbol :: "amcw_Solver \<Rightarrow> 2 word \<Rightarrow> amcw_Symbol \<times> amcw_Solver" where
  "amcw_newsymbol solver ty =
     (let id0 = symbol_count solver + 1;
          id1 = (if id0 > 0x3FFFFFFF then 1 else id0)
      in (\<lparr>sym_id = ucast id1, sym_type = ty\<rparr>, solver\<lparr>symbol_count := id1\<rparr>))"

section \<open>Hash table\<close>

definition zero_entry :: "'a \<Rightarrow> 'a amcw_Entry" where
  "zero_entry z = \<lparr>e_next = 0, key = amcw_null, payload = z\<rparr>"

text \<open>
  \<^verbatim>\<open>amcw_delkey\<close> takes the slot of the entry; \<^verbatim>\<open>--t->count\<close> wraps at 64 bits.
\<close>

definition amcw_delkey :: "'a amcw_Table \<Rightarrow> nat \<Rightarrow> 'a amcw_Table option" where
  "amcw_delkey t e =
     (if e < length (hash t)
      then Some (t\<lparr>hash := (hash t)[e := (hash t ! e)\<lparr>key := amcw_null\<rparr>], count := count t - 1\<rparr>)
      else None)"

text \<open>\<^verbatim>\<open>memset(t, 0, sizeof(*t)), t->entry_size = entry_size\<close>.\<close>

definition amcw_inittable :: "64 word \<Rightarrow> 'a amcw_Table" where
  "amcw_inittable esize = \<lparr>count = 0, entry_size = esize, lastfree = 0, hash = []\<rparr>"

definition amcw_mainposition :: "'a amcw_Table \<Rightarrow> amcw_Symbol \<Rightarrow> nat" where
  "amcw_mainposition t k = unat (sym_id k) AND (length (hash t) - 1)"

text \<open>
  \<^verbatim>\<open>amcw_resettable\<close> zeroes every slot; \<open>z\<close> is the payload whose bytes are all zero.
\<close>

definition amcw_resettable :: "'a \<Rightarrow> 'a amcw_Table \<Rightarrow> 'a amcw_Table" where
  "amcw_resettable z t =
     t\<lparr>count := 0, lastfree := length (hash t), hash := replicate (length (hash t)) (zero_entry z)\<rparr>"

text \<open>
  The loop of \<^verbatim>\<open>amcw_hashsize\<close>. It starts at \<open>newsize = 4\<close>, where the guard
  \<open>0 < newsize\<close> is true; the guard makes the doubling total.
\<close>

function hashsize_loop :: "64 word \<Rightarrow> nat \<Rightarrow> nat \<Rightarrow> nat" where
  "hashsize_loop max_size len newsize =
     (if of_nat newsize < max_size \<and> newsize < len \<and> 0 < newsize
      then hashsize_loop max_size len (2 * newsize) else newsize)"
  by pat_completeness auto
termination
  by (relation "measure (\<lambda>(m, len, n). len - n)") auto

declare hashsize_loop.simps [simp del]

text \<open>A division by an \<open>entry_size\<close> of zero traps.\<close>

definition amcw_hashsize :: "'a amcw_Table \<Rightarrow> nat \<Rightarrow> nat option" where
  "amcw_hashsize t len =
     (if entry_size t = 0 then None
      else let max_size = (AMCW_MAX_SIZET div 2) div entry_size t;
               newsize = hashsize_loop max_size len AMCW_MIN_HASHSIZE
           in Some (if newsize < len then 0 else newsize))"

text \<open>\<^verbatim>\<open>amcw_freetable\<close>: the slots are given back and the table is initialised again.\<close>

definition amcw_freetable :: "'a amcw_Table \<Rightarrow> 'a amcw_Table" where
  "amcw_freetable t = amcw_inittable (entry_size t)"

text \<open>
  The scan for a free slot in \<^verbatim>\<open>amcw_newkey\<close>: \<open>lastfree\<close> moves down until a slot
  with a null key and no successor is found. The result is the new \<open>lastfree\<close> and the
  slot found, if any.
\<close>

fun freescan :: "'a amcw_Entry list \<Rightarrow> nat \<Rightarrow> (nat \<times> nat option) option" where
  "freescan h 0 = Some (0, None)"
| "freescan h (Suc l) =
     (if l < length h
      then (if sym_id (key (h ! l)) = 0 \<and> e_next (h ! l) = 0 then Some (l, Some l)
            else freescan h l)
      else None)"

text \<open>
  The walk \<^verbatim>\<open>while ((next = amcw_index(othern, othern->next)) != mp) othern = next\<close>.
  The walk is deterministic and reads a table that does not change, so a walk of more
  steps than the table has slots has entered a cycle and never ends: the fuel is the
  number of slots.
\<close>

fun othern_walk :: "nat \<Rightarrow> 'a amcw_Entry list \<Rightarrow> nat \<Rightarrow> nat \<Rightarrow> nat option" where
  "othern_walk 0 h mp othern = None"
| "othern_walk (Suc n) h mp othern =
     (if othern < length h
      then (let nx = int othern + e_next (h ! othern)
            in if nx < 0 then None
               else if nat nx = mp then Some othern
               else othern_walk n h mp (nat nx))
      else None)"

text \<open>
  The part of \<^verbatim>\<open>amcw_newkey\<close> that runs once a free slot \<open>f\<close> is found for a key
  whose main position \<open>mp\<close> is taken. The result is the slots and the slot of the new
  key (whose key is not yet written).
\<close>

definition newkey_place :: "'a amcw_Table \<Rightarrow> nat \<Rightarrow> nat \<Rightarrow> ('a amcw_Entry list \<times> nat) option" where
  "newkey_place t mp f =
     (let h = hash t; othern = amcw_mainposition t (key (h ! mp))
      in if othern \<noteq> mp
         then (case othern_walk (length h) h mp othern of
                 None \<Rightarrow> None
               | Some on \<Rightarrow>
                   (let h1 = h[on := (h ! on)\<lparr>e_next := int f - int on\<rparr>];
                        h2 = h1[f := h1 ! mp];
                        h3 = (if e_next (h2 ! mp) \<noteq> 0
                              then (let h' = h2[f := (h2 ! f)\<lparr>e_next := e_next (h2 ! f) + (int mp - int f)\<rparr>]
                                    in h'[mp := (h' ! mp)\<lparr>e_next := 0\<rparr>])
                              else h2)
                    in Some (h3, mp)))
         else (if e_next (h ! mp) \<noteq> 0
               then (let h1 = h[f := (h ! f)\<lparr>e_next := (int mp - int f) + e_next (h ! mp)\<rparr>]
                     in Some (h1[mp := (h1 ! mp)\<lparr>e_next := int f - int mp\<rparr>], f))
               else (if e_next (h ! f) = 0
                     then Some (h[mp := (h ! mp)\<lparr>e_next := int f - int mp\<rparr>], f)
                     else None)))"

text \<open>
  \<^verbatim>\<open>amcw_newkey\<close> and \<^verbatim>\<open>amcw_resizetable\<close> call each other; the first argument
  \<open>z\<close> is the all-zero payload of \<^verbatim>\<open>memset\<close>, the second is fuel: one unit for
  each nested resize. \<open>rehash\<close> is the loop of \<^verbatim>\<open>amcw_resizetable\<close> over the old
  slots. \<^verbatim>\<open>amcw_newkey\<close> returns the table and the slot of the new key.
\<close>

fun amcw_newkey :: "'a \<Rightarrow> nat \<Rightarrow> 'a amcw_Table \<Rightarrow> amcw_Symbol \<Rightarrow> ('a amcw_Table \<times> nat) option"
  and amcw_resizetable :: "'a \<Rightarrow> nat \<Rightarrow> 'a amcw_Table \<Rightarrow> nat \<Rightarrow> 'a amcw_Table option"
  and rehash :: "'a \<Rightarrow> nat \<Rightarrow> 'a amcw_Entry list \<Rightarrow> 'a amcw_Table \<Rightarrow> 'a amcw_Table option"
where
  "amcw_newkey z 0 t k = None"
| "amcw_newkey z (Suc n) t k =
     (case (if length (hash t) = 0 then amcw_resizetable z n t AMCW_MIN_HASHSIZE else Some t) of
        None \<Rightarrow> None
      | Some t1 \<Rightarrow>
          (if length (hash t1) = 0 then None
           else let mp = amcw_mainposition t1 k
                in if sym_id (key (hash t1 ! mp)) \<noteq> 0
                   then (case freescan (hash t1) (lastfree t1) of
                           None \<Rightarrow> None
                         | Some (lf, None) \<Rightarrow>
                             (case amcw_resizetable z n (t1\<lparr>lastfree := lf\<rparr>) (unat (count t1 * 2)) of
                                None \<Rightarrow> None
                              | Some t2 \<Rightarrow> amcw_newkey z n t2 k)
                         | Some (lf, Some f) \<Rightarrow>
                             (case newkey_place t1 mp f of
                                None \<Rightarrow> None
                              | Some (h, mp') \<Rightarrow>
                                  Some (t1\<lparr>lastfree := lf, hash := h[mp' := (h ! mp')\<lparr>key := k\<rparr>]\<rparr>, mp')))
                   else Some (t1\<lparr>hash := (hash t1)[mp := (hash t1 ! mp)\<lparr>key := k\<rparr>]\<rparr>, mp)))"
| "amcw_resizetable z 0 t len = None"
| "amcw_resizetable z (Suc n) t len =
     (case amcw_hashsize t len of
        None \<Rightarrow> None
      | Some newsize \<Rightarrow>
          rehash z n (hash t) (t\<lparr>lastfree := newsize, hash := replicate newsize (zero_entry z)\<rparr>))"
| "rehash z n [] nt = Some nt"
| "rehash z n (e # es) nt =
     (if sym_id (key e) \<noteq> 0
      then (case amcw_newkey z n nt (key e) of
              None \<Rightarrow> None
            | Some (nt1, ne) \<Rightarrow>
                rehash z n es (nt1\<lparr>hash := (hash nt1)[ne := (hash nt1 ! ne)\<lparr>payload := payload e\<rparr>]\<rparr>))
      else rehash z n es nt)"

text \<open>
  The chain walk of \<^verbatim>\<open>amcw_gettable\<close>; as for \<open>othern_walk\<close>, the fuel is the
  number of slots. The result is \<open>Some None\<close> for \<^verbatim>\<open>NULL\<close> and \<open>Some (Some e)\<close>
  for the entry in slot \<open>e\<close>.
\<close>

fun getloop :: "nat \<Rightarrow> 'a amcw_Entry list \<Rightarrow> amcw_Symbol \<Rightarrow> nat \<Rightarrow> nat option option" where
  "getloop 0 h k e = None"
| "getloop (Suc n) h k e =
     (if e < length h
      then (if sym_id (key (h ! e)) = sym_id k then Some (Some e)
            else if e_next (h ! e) = 0 then Some None
            else (let nx = int e + e_next (h ! e)
                  in if nx < 0 then None else getloop n h k (nat nx)))
      else None)"

definition amcw_gettable :: "'a amcw_Table \<Rightarrow> amcw_Symbol \<Rightarrow> nat option option" where
  "amcw_gettable t k =
     (if length (hash t) = 0 \<or> sym_id k = 0 then Some None
      else getloop (length (hash t)) (hash t) k (amcw_mainposition t k))"

text \<open>
  \<^verbatim>\<open>amcw_settable\<close>. A resize that needs a second resize repeats for ever (the second
  rebuilds a table of the same size from the same keys), so three units of fuel are enough
  whenever the C function returns. Every table of the solver has a payload, so the
  \<^verbatim>\<open>memset\<close> of the new payload always runs.
\<close>

definition amcw_settable :: "'a \<Rightarrow> 'a amcw_Table \<Rightarrow> amcw_Symbol \<Rightarrow> ('a amcw_Table \<times> nat) option" where
  "amcw_settable z t k =
     (if sym_id k = 0 then None
      else case amcw_gettable t k of
             None \<Rightarrow> None
           | Some (Some e) \<Rightarrow> Some (t, e)
           | Some None \<Rightarrow>
               (case amcw_newkey z (Suc (Suc (Suc 0))) t k of
                  None \<Rightarrow> None
                | Some (t1, e) \<Rightarrow>
                    Some (t1\<lparr>hash := (hash t1)[e := (hash t1 ! e)\<lparr>payload := z\<rparr>],
                             count := count t1 + 1\<rparr>, e)))"

text \<open>
  \<^verbatim>\<open>amcw_nextentry\<close> yields the slots with a non-null key in slot order. The loops over
  a table that only read it run over \<open>entries\<close>; the loops that change the solver run over
  the slot numbers \<open>slots\<close> and read each slot when they reach it.
\<close>

definition live :: "'a amcw_Entry \<Rightarrow> bool" where
  "live e = (sym_id (key e) \<noteq> 0)"

definition entries :: "'a amcw_Table \<Rightarrow> 'a amcw_Entry list" where
  "entries t = filter live (hash t)"

definition slots :: "'a amcw_Table \<Rightarrow> nat list" where
  "slots t = [0 ..< length (hash t)]"

section \<open>Expressions (rows)\<close>

text \<open>
  The \<^verbatim>\<open>solver\<close> argument of the table and row functions only carries the allocator
  and is left out. \<^verbatim>\<open>sizeof\<close> is that of an LP64 platform.
\<close>

definition sizeof_Term :: "64 word" where "sizeof_Term = 16"
definition sizeof_Row :: "64 word" where "sizeof_Row = 64"
definition sizeof_VarEntry :: "64 word" where "sizeof_VarEntry = 16"
definition sizeof_ConsEntry :: "64 word" where "sizeof_ConsEntry = 16"

text \<open>The row payload whose bytes are all zero, and a local row before it is initialised.\<close>

definition zero_RowBody :: amcw_RowBody where
  "zero_RowBody = \<lparr>infeasible_next = amcw_null, terms = amcw_inittable 0, row_constant = 0\<rparr>"

definition local_row :: amcw_Row where
  "local_row = zero_entry zero_RowBody"

definition set_terms :: "amcw_Row \<Rightarrow> amcw_Num amcw_Table \<Rightarrow> amcw_Row" where
  "set_terms row t = row\<lparr>payload := (payload row)\<lparr>terms := t\<rparr>\<rparr>"

definition set_constant :: "amcw_Row \<Rightarrow> amcw_Num \<Rightarrow> amcw_Row" where
  "set_constant row c = row\<lparr>payload := (payload row)\<lparr>row_constant := c\<rparr>\<rparr>"

definition amcw_isconstant :: "amcw_Row \<Rightarrow> bool" where
  "amcw_isconstant row = (count (terms (payload row)) = 0)"

definition amcw_freerow :: "amcw_Row \<Rightarrow> amcw_Row" where
  "amcw_freerow row = set_terms row (amcw_freetable (terms (payload row)))"

definition amcw_resetrow :: "amcw_Row \<Rightarrow> amcw_Row" where
  "amcw_resetrow row = set_terms (set_constant row 0) (amcw_resettable 0 (terms (payload row)))"

definition amcw_initrow :: "amcw_Row \<Rightarrow> amcw_Row" where
  "amcw_initrow row =
     row\<lparr>key := amcw_null,
         payload := \<lparr>infeasible_next = amcw_null, terms = amcw_inittable sizeof_Term, row_constant = 0\<rparr>\<rparr>"

definition amcw_multiply :: "amcw_Row \<Rightarrow> amcw_Num \<Rightarrow> amcw_Row" where
  "amcw_multiply row multiplier =
     set_terms (set_constant row (row_constant (payload row) * multiplier))
       ((terms (payload row))\<lparr>hash :=
           map (\<lambda>term. if live term then term\<lparr>payload := payload term * multiplier\<rparr> else term)
               (hash (terms (payload row)))\<rparr>)"

definition amcw_addvar :: "amcw_Row \<Rightarrow> amcw_Symbol \<Rightarrow> amcw_Num \<Rightarrow> amcw_Row option" where
  "amcw_addvar row sy v =
     (if sym_id sy = 0 then Some row
      else case amcw_settable 0 (terms (payload row)) sy of
             None \<Rightarrow> None
           | Some (t, e) \<Rightarrow>
               (let m = payload (hash t ! e) + v;
                    t1 = t\<lparr>hash := (hash t)[e := (hash t ! e)\<lparr>payload := m\<rparr>]\<rparr>
                in if amcw_nearzero m
                   then (case amcw_delkey t1 e of
                           None \<Rightarrow> None
                         | Some t2 \<Rightarrow> Some (set_terms row t2))
                   else Some (set_terms row t1)))"

fun addrow_loop :: "amcw_Row \<Rightarrow> amcw_Term list \<Rightarrow> amcw_Num \<Rightarrow> amcw_Row option" where
  "addrow_loop row [] multiplier = Some row"
| "addrow_loop row (term # ts) multiplier =
     (case amcw_addvar row (key term) (payload term * multiplier) of
        None \<Rightarrow> None
      | Some row1 \<Rightarrow> addrow_loop row1 ts multiplier)"

definition amcw_addrow :: "amcw_Row \<Rightarrow> amcw_Row \<Rightarrow> amcw_Num \<Rightarrow> amcw_Row option" where
  "amcw_addrow row other_row multiplier =
     addrow_loop
       (set_constant row (row_constant (payload row) + row_constant (payload other_row) * multiplier))
       (entries (terms (payload other_row))) multiplier"

text \<open>
  \<^verbatim>\<open>amcw_solvefor\<close> reads \<^verbatim>\<open>term->multiplier\<close> before its \<^verbatim>\<open>assert\<close>: a missing
  term is a null dereference.
\<close>

definition amcw_solvefor :: "amcw_Row \<Rightarrow> amcw_Symbol \<Rightarrow> amcw_Symbol \<Rightarrow> amcw_Row option" where
  "amcw_solvefor row entry exit =
     (case amcw_gettable (terms (payload row)) entry of
        None \<Rightarrow> None
      | Some None \<Rightarrow> None
      | Some (Some e) \<Rightarrow>
          (let m = payload (hash (terms (payload row)) ! e); reciprocal = 1 / m
           in if sym_id entry = sym_id exit \<or> amcw_nearzero m then None
              else case amcw_delkey (terms (payload row)) e of
                     None \<Rightarrow> None
                   | Some t \<Rightarrow>
                       (let row1 = amcw_multiply (set_terms row t) (- reciprocal)
                        in if sym_id exit \<noteq> 0 then amcw_addvar row1 exit reciprocal
                           else Some row1)))"

definition amcw_substitute :: "amcw_Row \<Rightarrow> amcw_Symbol \<Rightarrow> amcw_Row \<Rightarrow> amcw_Row option" where
  "amcw_substitute row entry other_row =
     (case amcw_gettable (terms (payload row)) entry of
        None \<Rightarrow> None
      | Some None \<Rightarrow> Some row
      | Some (Some e) \<Rightarrow>
          (case amcw_delkey (terms (payload row)) e of
             None \<Rightarrow> None
           | Some t \<Rightarrow>
               amcw_addrow (set_terms row t) other_row (payload (hash (terms (payload row)) ! e))))"

section \<open>Variables and constraints\<close>

definition get_var :: "amcw_Solver \<Rightarrow> var_ptr \<Rightarrow> amcw_Var option" where
  "get_var solver p =
     (if p = 0 \<or> length (var_mem solver) < p then None else Some (var_mem solver ! (p - 1)))"

definition put_var :: "amcw_Solver \<Rightarrow> var_ptr \<Rightarrow> amcw_Var \<Rightarrow> amcw_Solver" where
  "put_var solver p v = solver\<lparr>var_mem := (var_mem solver)[p - 1 := v]\<rparr>"

definition get_cons :: "amcw_Solver \<Rightarrow> cons_ptr \<Rightarrow> amcw_Constraint option" where
  "get_cons solver p =
     (if p = 0 \<or> length (cons_mem solver) < p then None else Some (cons_mem solver ! (p - 1)))"

definition put_cons :: "amcw_Solver \<Rightarrow> cons_ptr \<Rightarrow> amcw_Constraint \<Rightarrow> amcw_Solver" where
  "put_cons solver p c = solver\<lparr>cons_mem := (cons_mem solver)[p - 1 := c]\<rparr>"

definition amcw_variableid :: "amcw_Solver \<Rightarrow> var_ptr \<Rightarrow> int option" where
  "amcw_variableid solver var =
     (if var = 0 then Some (- 1)
      else case get_var solver var of None \<Rightarrow> None | Some v \<Rightarrow> Some (uint (sym_id (sym v))))"

definition amcw_value :: "amcw_Solver \<Rightarrow> var_ptr \<Rightarrow> amcw_Num option" where
  "amcw_value solver var =
     (if var = 0 then Some 0
      else case get_var solver var of None \<Rightarrow> None | Some v \<Rightarrow> Some (var_value v))"

definition amcw_usevariable :: "amcw_Solver \<Rightarrow> var_ptr \<Rightarrow> amcw_Solver option" where
  "amcw_usevariable solver var =
     (if var = 0 then Some solver
      else case get_var solver var of
             None \<Rightarrow> None
           | Some v \<Rightarrow> Some (put_var solver var (v\<lparr>refcount := refcount v + 1\<rparr>)))"

definition amcw_sym2var :: "amcw_Solver \<Rightarrow> amcw_Symbol \<Rightarrow> var_ptr option" where
  "amcw_sym2var solver sy =
     (case amcw_gettable (vars solver) sy of
        None \<Rightarrow> None
      | Some None \<Rightarrow> None
      | Some (Some e) \<Rightarrow> Some (payload (hash (vars solver) ! e)))"

text \<open>
  \<^verbatim>\<open>amcw_newvariable\<close>: the pool hands out an object that no live pointer names; the
  model appends it to the store.
\<close>

definition amcw_newvariable :: "amcw_Solver \<Rightarrow> (var_ptr \<times> amcw_Solver) option" where
  "amcw_newvariable solver =
     (let var = length (var_mem solver) + 1;
          (sy, s1) = amcw_newsymbol solver AMCW_EXTERNAL
      in case amcw_settable 0 (vars s1) sy of
           None \<Rightarrow> None
         | Some (t, e) \<Rightarrow>
             (if payload (hash t ! e) \<noteq> 0 then None
              else Some (var,
                     s1\<lparr>vars := t\<lparr>hash := (hash t)[e := (hash t ! e)\<lparr>payload := var\<rparr>]\<rparr>,
                        var_mem := var_mem s1 @
                          [\<lparr>sym = sy, dirty_next = amcw_null, refcount = 1, constraint = 0,
                            edit_value = 0, var_value = 0\<rparr>]\<rparr>)))"

text \<open>
  \<^verbatim>\<open>amcw_newconstraint\<close>: the constraint id is the 32-bit counter stored in a 30-bit
  field.
\<close>

definition amcw_newconstraint :: "amcw_Solver \<Rightarrow> amcw_Num \<Rightarrow> (cons_ptr \<times> amcw_Solver) option" where
  "amcw_newconstraint solver st =
     (let cons = length (cons_mem solver) + 1;
          cc = constraint_count solver + 1;
          k = \<lparr>sym_id = ucast cc, sym_type = AMCW_EXTERNAL\<rparr>;
          c = \<lparr>expression = (amcw_initrow local_row)\<lparr>key := k\<rparr>, marker = amcw_null,
               other = amcw_null, relation = 0,
               strength = (if amcw_nearzero st then AMCW_REQUIRED else st)\<rparr>
      in case amcw_settable 0 (constraints solver) k of
           None \<Rightarrow> None
         | Some (t, e) \<Rightarrow>
             Some (cons,
               solver\<lparr>constraint_count := cc,
                      constraints := t\<lparr>hash := (hash t)[e := (hash t ! e)\<lparr>payload := cons\<rparr>]\<rparr>,
                      cons_mem := cons_mem solver @ [c]\<rparr>))"

definition amcw_addterm :: "amcw_Solver \<Rightarrow> cons_ptr \<Rightarrow> var_ptr \<Rightarrow> amcw_Num \<Rightarrow> (int \<times> amcw_Solver) option" where
  "amcw_addterm solver cons var multiplier =
     (if cons = 0 \<or> var = 0 then Some (AMCW_FAILED, solver)
      else case (get_cons solver cons, get_var solver var) of
             (Some c, Some v) \<Rightarrow>
               (if sym_id (marker c) \<noteq> 0 then Some (AMCW_FAILED, solver)
                else if sym_id (sym v) = 0 then None
                else case amcw_addvar (expression c) (sym v)
                            (if relation c = AMCW_GREATEQUAL then - multiplier else multiplier) of
                       None \<Rightarrow> None
                     | Some row \<Rightarrow>
                         (case amcw_usevariable (put_cons solver cons (c\<lparr>expression := row\<rparr>)) var of
                            None \<Rightarrow> None
                          | Some s1 \<Rightarrow> Some (AMCW_OK, s1)))
           | _ \<Rightarrow> None)"

definition amcw_addconstant :: "amcw_Solver \<Rightarrow> cons_ptr \<Rightarrow> amcw_Num \<Rightarrow> (int \<times> amcw_Solver) option" where
  "amcw_addconstant solver cons c0 =
     (if cons = 0 then Some (AMCW_FAILED, solver)
      else case get_cons solver cons of
             None \<Rightarrow> None
           | Some c \<Rightarrow>
               (if sym_id (marker c) \<noteq> 0 then Some (AMCW_FAILED, solver)
                else Some (AMCW_OK,
                  put_cons solver cons
                    (c\<lparr>expression := set_constant (expression c)
                         (row_constant (payload (expression c)) +
                            (if relation c = AMCW_GREATEQUAL then - c0 else c0))\<rparr>))))"

text \<open>The \<^verbatim>\<open>assert\<close> on the relation comes first, before the null check.\<close>

definition amcw_setrelation :: "amcw_Solver \<Rightarrow> cons_ptr \<Rightarrow> int \<Rightarrow> (int \<times> amcw_Solver) option" where
  "amcw_setrelation solver cons rel =
     (if \<not> (AMCW_LESSEQUAL \<le> rel \<and> rel \<le> AMCW_GREATEQUAL) then None
      else if cons = 0 then Some (AMCW_FAILED, solver)
      else case get_cons solver cons of
             None \<Rightarrow> None
           | Some c \<Rightarrow>
               (if sym_id (marker c) \<noteq> 0 \<or> relation c \<noteq> 0 then Some (AMCW_FAILED, solver)
                else Some (AMCW_OK,
                  put_cons solver cons
                    (c\<lparr>expression := (if rel \<noteq> AMCW_GREATEQUAL
                                       then amcw_multiply (expression c) (- 1) else expression c),
                       relation := rel\<rparr>))))"

section \<open>Cassowary algorithm\<close>

definition amcw_hasedit :: "amcw_Solver \<Rightarrow> var_ptr \<Rightarrow> bool option" where
  "amcw_hasedit solver var =
     (if var = 0 then Some False
      else case get_var solver var of None \<Rightarrow> None | Some v \<Rightarrow> Some (constraint v \<noteq> 0))"

definition amcw_hasconstraint :: "amcw_Solver \<Rightarrow> cons_ptr \<Rightarrow> bool option" where
  "amcw_hasconstraint solver cons =
     (if cons = 0 then Some False
      else case get_cons solver cons of None \<Rightarrow> None | Some c \<Rightarrow> Some (sym_id (marker c) \<noteq> 0))"

definition amcw_autoupdate :: "amcw_Solver \<Rightarrow> 32 word \<Rightarrow> amcw_Solver" where
  "amcw_autoupdate solver au = solver\<lparr>auto_update := au\<rparr>"

text \<open>A row of the tableau is named by its slot in \<open>rows\<close>.\<close>

definition set_row :: "amcw_Solver \<Rightarrow> nat \<Rightarrow> amcw_Row \<Rightarrow> amcw_Solver" where
  "set_row solver i row = solver\<lparr>rows := (rows solver)\<lparr>hash := (hash (rows solver))[i := row]\<rparr>\<rparr>"

definition amcw_infeasible :: "amcw_Solver \<Rightarrow> nat \<Rightarrow> amcw_Solver" where
  "amcw_infeasible solver i =
     (let row = hash (rows solver) ! i
      in if row_constant (payload row) < 0 \<and> \<not> amcw_isdummy (infeasible_next (payload row))
         then (set_row solver i
                 (row\<lparr>payload := (payload row)\<lparr>infeasible_next :=
                    \<lparr>sym_id = sym_id (infeasible_rows solver), sym_type = AMCW_DUMMY\<rparr>\<rparr>\<rparr>))
              \<lparr>infeasible_rows := key row\<rparr>
         else solver)"

definition amcw_markdirty :: "amcw_Solver \<Rightarrow> var_ptr \<Rightarrow> amcw_Solver option" where
  "amcw_markdirty solver var =
     (case get_var solver var of
        None \<Rightarrow> None
      | Some v \<Rightarrow>
          (if sym_type (dirty_next v) = AMCW_DUMMY then Some solver
           else Some ((put_var solver var
                        (v\<lparr>dirty_next := \<lparr>sym_id = sym_id (dirty_vars solver), sym_type = AMCW_DUMMY\<rparr>\<rparr>))
                      \<lparr>dirty_vars := sym v\<rparr>)))"

fun substitute_rows_loop :: "nat list \<Rightarrow> amcw_Solver \<Rightarrow> amcw_Symbol \<Rightarrow> amcw_Row \<Rightarrow> amcw_Solver option" where
  "substitute_rows_loop [] solver var expr = Some solver"
| "substitute_rows_loop (i # is) solver var expr =
     (if i < length (hash (rows solver)) \<and> live (hash (rows solver) ! i)
      then (case amcw_substitute (hash (rows solver) ! i) var expr of
              None \<Rightarrow> None
            | Some row \<Rightarrow>
                (let s1 = set_row solver i row
                 in case (if amcw_isexternal (key row)
                          then (case amcw_sym2var s1 (key row) of
                                  None \<Rightarrow> None
                                | Some p \<Rightarrow> amcw_markdirty s1 p)
                          else Some (amcw_infeasible s1 i)) of
                      None \<Rightarrow> None
                    | Some s2 \<Rightarrow> substitute_rows_loop is s2 var expr))
      else substitute_rows_loop is solver var expr)"

definition amcw_substitute_rows :: "amcw_Solver \<Rightarrow> amcw_Symbol \<Rightarrow> amcw_Row \<Rightarrow> amcw_Solver option" where
  "amcw_substitute_rows solver var expr =
     (case substitute_rows_loop (slots (rows solver)) solver var expr of
        None \<Rightarrow> None
      | Some s1 \<Rightarrow>
          (case amcw_substitute (objective s1) var expr of
             None \<Rightarrow> None
           | Some obj \<Rightarrow> Some (s1\<lparr>objective := obj\<rparr>)))"

text \<open>
  \<^verbatim>\<open>amcw_takerow\<close> returns the code, the row \<^verbatim>\<open>dst\<close> and the solver. The slot
  that is given up keeps its old payload; no function reads the payload of a slot with a
  null key.
\<close>

definition amcw_takerow :: "amcw_Solver \<Rightarrow> amcw_Symbol \<Rightarrow> amcw_Row \<Rightarrow> (int \<times> amcw_Row \<times> amcw_Solver) option" where
  "amcw_takerow solver sy dst =
     (case amcw_gettable (rows solver) sy of
        None \<Rightarrow> None
      | Some None \<Rightarrow> Some (AMCW_FAILED, dst\<lparr>key := amcw_null\<rparr>, solver)
      | Some (Some e) \<Rightarrow>
          (case amcw_delkey (rows solver) e of
             None \<Rightarrow> None
           | Some t \<Rightarrow>
               (let row = hash (rows solver) ! e
                in Some (AMCW_OK,
                         set_terms (set_constant (dst\<lparr>key := amcw_null\<rparr>) (row_constant (payload row)))
                           (terms (payload row)),
                         solver\<lparr>rows := t\<rparr>))))"

definition amcw_putrow :: "amcw_Solver \<Rightarrow> amcw_Symbol \<Rightarrow> amcw_Row \<Rightarrow> amcw_Solver option" where
  "amcw_putrow solver sy src =
     (case amcw_settable zero_RowBody (rows solver) sy of
        None \<Rightarrow> None
      | Some (t, e) \<Rightarrow>
          Some (solver\<lparr>rows := t\<lparr>hash := (hash t)
                  [e := set_terms (set_constant (hash t ! e) (row_constant (payload src)))
                          (terms (payload src))]\<rparr>\<rparr>))"

definition amcw_mergerow :: "amcw_Solver \<Rightarrow> amcw_Row \<Rightarrow> amcw_Symbol \<Rightarrow> amcw_Num \<Rightarrow> amcw_Row option" where
  "amcw_mergerow solver row var multiplier =
     (case amcw_gettable (rows solver) var of
        None \<Rightarrow> None
      | Some (Some e) \<Rightarrow> amcw_addrow row (hash (rows solver) ! e) multiplier
      | Some None \<Rightarrow> amcw_addvar row var multiplier)"

text \<open>
  \<^verbatim>\<open>amcw_optimize\<close> gets a pointer to the row it minimises: the objective of the solver
  or a local row.
\<close>

datatype obj_ref = SolverObjective | LocalObjective amcw_Row

definition obj_row :: "amcw_Solver \<Rightarrow> obj_ref \<Rightarrow> amcw_Row" where
  "obj_row solver obj = (case obj of SolverObjective \<Rightarrow> objective solver | LocalObjective r \<Rightarrow> r)"

text \<open>The first loop of \<^verbatim>\<open>amcw_optimize\<close>: the entering symbol, null when there is none.\<close>

definition optimize_enter :: "amcw_Row \<Rightarrow> amcw_Symbol" where
  "optimize_enter obj =
     (case find (\<lambda>term. \<not> amcw_isdummy (key term) \<and> payload term < 0)
             (entries (terms (payload obj))) of
        None \<Rightarrow> amcw_null
      | Some term \<Rightarrow> key term)"

text \<open>
  The second loop: the leaving row. In C a division by a coefficient that is exactly zero
  gives an infinity or a NaN; the model has no value there.
\<close>

fun optimize_exit :: "amcw_Row list \<Rightarrow> amcw_Symbol \<Rightarrow> amcw_Num \<Rightarrow> amcw_Symbol \<Rightarrow> (amcw_Num \<times> amcw_Symbol) option" where
  "optimize_exit [] enter min_ratio exit = Some (min_ratio, exit)"
| "optimize_exit (row # rs) enter min_ratio exit =
     (case amcw_gettable (terms (payload row)) enter of
        None \<Rightarrow> None
      | Some None \<Rightarrow> optimize_exit rs enter min_ratio exit
      | Some (Some e) \<Rightarrow>
          (let m = payload (hash (terms (payload row)) ! e)
           in if \<not> amcw_ispivotable (key row) \<or> m > 0 then optimize_exit rs enter min_ratio exit
              else if m = 0 then None
              else (let r = - row_constant (payload row) / m
                    in if r < min_ratio \<or> (amcw_approx r min_ratio \<and> sym_id (key row) < sym_id exit)
                       then optimize_exit rs enter r (key row)
                       else optimize_exit rs enter min_ratio exit)))"

definition optimize_pivot :: "amcw_Solver \<Rightarrow> obj_ref \<Rightarrow> amcw_Symbol \<Rightarrow> amcw_Symbol \<Rightarrow> (amcw_Solver \<times> obj_ref) option" where
  "optimize_pivot solver obj enter exit =
     do {
       (r, tmp, s1) \<leftarrow> amcw_takerow solver exit local_row;
       tmp1 \<leftarrow> amcw_solvefor tmp enter exit;
       s2 \<leftarrow> amcw_substitute_rows s1 enter tmp1;
       obj1 \<leftarrow> (case obj of
                  SolverObjective \<Rightarrow> Some SolverObjective
                | LocalObjective r \<Rightarrow> map_option LocalObjective (amcw_substitute r enter tmp1));
       s3 \<leftarrow> amcw_putrow s2 enter tmp1;
       Some (s3, obj1)
     }"

partial_function (option) amcw_optimize :: "amcw_Solver \<Rightarrow> obj_ref \<Rightarrow> (int \<times> amcw_Solver \<times> obj_ref) option" where
  "amcw_optimize solver obj =
     (if sym_id (infeasible_rows solver) \<noteq> 0 then None
      else let enter = optimize_enter (obj_row solver obj)
           in if sym_id enter = 0 then Some (AMCW_OK, solver, obj)
              else case optimize_exit (entries (rows solver)) enter AMCW_NUM_MAX amcw_null of
                     None \<Rightarrow> None
                   | Some (min_ratio, exit) \<Rightarrow>
                       (if sym_id exit = 0 then None
                        else case optimize_pivot solver obj enter exit of
                               None \<Rightarrow> None
                             | Some (s1, obj1) \<Rightarrow> amcw_optimize s1 obj1))"

declare amcw_optimize.simps [code]

definition amcw_initsymbol :: "amcw_Solver \<Rightarrow> amcw_Symbol \<Rightarrow> 2 word \<Rightarrow> amcw_Symbol \<times> amcw_Solver" where
  "amcw_initsymbol solver sy ty = (if sym_id sy = 0 then amcw_newsymbol solver ty else (sy, solver))"

fun makerow_loop :: "amcw_Term list \<Rightarrow> amcw_Solver \<Rightarrow> amcw_Row \<Rightarrow> (amcw_Row \<times> amcw_Solver) option" where
  "makerow_loop [] solver row = Some (row, solver)"
| "makerow_loop (term # ts) solver row =
     (case amcw_sym2var solver (key term) of
        None \<Rightarrow> None
      | Some p \<Rightarrow>
          (case amcw_markdirty solver p of
             None \<Rightarrow> None
           | Some s1 \<Rightarrow>
               (case amcw_mergerow s1 row (key term) (payload term) of
                  None \<Rightarrow> None
                | Some row1 \<Rightarrow> makerow_loop ts s1 row1)))"

text \<open>\<^verbatim>\<open>amcw_makerow\<close> returns the row and the solver; the constraint is updated in the store.\<close>

definition amcw_makerow :: "amcw_Solver \<Rightarrow> cons_ptr \<Rightarrow> (amcw_Row \<times> amcw_Solver) option" where
  "amcw_makerow solver cons =
     do {
       c \<leftarrow> get_cons solver cons;
       (row, s1) \<leftarrow> makerow_loop (entries (terms (payload (expression c)))) solver
                      (set_constant (amcw_initrow local_row) (row_constant (payload (expression c))));
       (row1, s2) \<leftarrow>
         (if relation c \<noteq> AMCW_EQUAL
          then do {
            let (m, s2) = amcw_initsymbol s1 (marker c) AMCW_SLACK;
            row1 \<leftarrow> amcw_addvar row m (- 1);
            if strength c < AMCW_REQUIRED
            then do {
              let (ot, s3) = amcw_initsymbol s2 (other c) AMCW_ERROR;
              row2 \<leftarrow> amcw_addvar row1 ot 1;
              obj \<leftarrow> amcw_addvar (objective s3) ot (strength c);
              Some (row2, put_cons (s3\<lparr>objective := obj\<rparr>) cons (c\<lparr>marker := m, other := ot\<rparr>))
            }
            else Some (row1, put_cons s2 cons (c\<lparr>marker := m\<rparr>))
          }
          else if strength c \<ge> AMCW_REQUIRED
          then do {
            let (m, s2) = amcw_initsymbol s1 (marker c) AMCW_DUMMY;
            row1 \<leftarrow> amcw_addvar row m 1;
            Some (row1, put_cons s2 cons (c\<lparr>marker := m\<rparr>))
          }
          else do {
            let (m, s2) = amcw_initsymbol s1 (marker c) AMCW_ERROR;
            let (ot, s3) = amcw_initsymbol s2 (other c) AMCW_ERROR;
            row1 \<leftarrow> amcw_addvar row m (- 1);
            row2 \<leftarrow> amcw_addvar row1 ot 1;
            obj1 \<leftarrow> amcw_addvar (objective s3) m (strength c);
            obj2 \<leftarrow> amcw_addvar obj1 ot (strength c);
            Some (row2, put_cons (s3\<lparr>objective := obj2\<rparr>) cons (c\<lparr>marker := m, other := ot\<rparr>))
          });
       Some (if row_constant (payload row1) < 0 then amcw_multiply row1 (- 1) else row1, s2)
     }"

definition amcw_remove_errors :: "amcw_Solver \<Rightarrow> cons_ptr \<Rightarrow> amcw_Solver option" where
  "amcw_remove_errors solver cons =
     do {
       c \<leftarrow> get_cons solver cons;
       obj1 \<leftarrow> (if amcw_iserror (marker c)
                then amcw_mergerow solver (objective solver) (marker c) (- strength c)
                else Some (objective solver));
       obj2 \<leftarrow> (if amcw_iserror (other c)
                then amcw_mergerow solver obj1 (other c) (- strength c)
                else Some obj1);
       Some (put_cons (solver\<lparr>objective := (if amcw_isconstant obj2 then set_constant obj2 0 else obj2)\<rparr>)
               cons (c\<lparr>marker := amcw_null, other := amcw_null\<rparr>))
     }"

text \<open>
  The loop of \<^verbatim>\<open>amcw_get_leaving_row\<close> carries \<open>first\<close>, \<open>second\<close>, \<open>third\<close>,
  \<open>r1\<close> and \<open>r2\<close>.
\<close>

fun leaving_loop :: "amcw_Row list \<Rightarrow> amcw_Symbol \<Rightarrow> amcw_Symbol \<times> amcw_Symbol \<times> amcw_Symbol \<times> amcw_Num \<times> amcw_Num
    \<Rightarrow> (amcw_Symbol \<times> amcw_Symbol \<times> amcw_Symbol \<times> amcw_Num \<times> amcw_Num) option" where
  "leaving_loop [] mk acc = Some acc"
| "leaving_loop (row # rs) mk (first, second, third, r1, r2) =
     (case amcw_gettable (terms (payload row)) mk of
        None \<Rightarrow> None
      | Some None \<Rightarrow> leaving_loop rs mk (first, second, third, r1, r2)
      | Some (Some e) \<Rightarrow>
          (let m = payload (hash (terms (payload row)) ! e)
           in if amcw_isexternal (key row) then leaving_loop rs mk (first, second, key row, r1, r2)
              else if m < 0
              then (let r = - row_constant (payload row) / m
                    in if r < r1 then leaving_loop rs mk (key row, second, third, r, r2)
                       else leaving_loop rs mk (first, second, third, r1, r2))
              else if m = 0 then None
              else (let r = row_constant (payload row) / m
                    in if r < r2 then leaving_loop rs mk (first, key row, third, r1, r)
                       else leaving_loop rs mk (first, second, third, r1, r2))))"

definition amcw_get_leaving_row :: "amcw_Solver \<Rightarrow> amcw_Symbol \<Rightarrow> amcw_Symbol option" where
  "amcw_get_leaving_row solver mk =
     (case leaving_loop (entries (rows solver)) mk
             (amcw_null, amcw_null, amcw_null, AMCW_NUM_MAX, AMCW_NUM_MAX) of
        None \<Rightarrow> None
      | Some (first, second, third, r1, r2) \<Rightarrow>
          Some (if sym_id first \<noteq> 0 then first else if sym_id second \<noteq> 0 then second else third))"

partial_function (option) amcw_updatevars :: "amcw_Solver \<Rightarrow> amcw_Solver option" where
  "amcw_updatevars solver =
     (if sym_id (dirty_vars solver) = 0 then Some solver
      else case amcw_sym2var solver (dirty_vars solver) of
             None \<Rightarrow> None
           | Some p \<Rightarrow>
               (case get_var solver p of
                  None \<Rightarrow> None
                | Some var \<Rightarrow>
                    (case amcw_gettable (rows solver) (sym var) of
                       None \<Rightarrow> None
                     | Some r \<Rightarrow>
                         amcw_updatevars
                           ((put_var solver p
                               (var\<lparr>dirty_next := amcw_null,
                                    var_value := (case r of
                                                    None \<Rightarrow> 0
                                                  | Some i \<Rightarrow> row_constant (payload (hash (rows solver) ! i)))\<rparr>))
                            \<lparr>dirty_vars := dirty_next var\<rparr>))))"

declare amcw_updatevars.simps [code]

definition amcw_remove :: "amcw_Solver \<Rightarrow> cons_ptr \<Rightarrow> amcw_Solver option" where
  "amcw_remove solver cons =
     (if cons = 0 then Some solver
      else do {
        c \<leftarrow> get_cons solver cons;
        if sym_id (marker c) = 0 then Some solver
        else do {
          s1 \<leftarrow> amcw_remove_errors solver cons;
          (ret, tmp, s2) \<leftarrow> amcw_takerow s1 (marker c) local_row;
          s3 \<leftarrow> (if ret \<noteq> AMCW_OK
                 then do {
                   exit \<leftarrow> amcw_get_leaving_row s2 (marker c);
                   if sym_id exit = 0 then None
                   else do {
                     (r, tmp1, s3) \<leftarrow> amcw_takerow s2 exit tmp;
                     tmp2 \<leftarrow> amcw_solvefor tmp1 (marker c) exit;
                     amcw_substitute_rows s3 (marker c) tmp2
                   }
                 }
                 else Some s2);
          (r, s4, obj) \<leftarrow> amcw_optimize s3 SolverObjective;
          if auto_update s4 \<noteq> 0 then amcw_updatevars s4 else Some s4
        }
      })"

text \<open>
  The loop of \<^verbatim>\<open>amcw_add_with_artificial\<close> that erases the artificial symbol from
  every row.
\<close>

fun erase_loop :: "nat list \<Rightarrow> amcw_Solver \<Rightarrow> amcw_Symbol \<Rightarrow> amcw_Solver option" where
  "erase_loop [] solver a = Some solver"
| "erase_loop (i # is) solver a =
     (if i < length (hash (rows solver)) \<and> live (hash (rows solver) ! i)
      then (let row = hash (rows solver) ! i
            in case amcw_gettable (terms (payload row)) a of
                 None \<Rightarrow> None
               | Some None \<Rightarrow> erase_loop is solver a
               | Some (Some e) \<Rightarrow>
                   (case amcw_delkey (terms (payload row)) e of
                      None \<Rightarrow> None
                    | Some t \<Rightarrow> erase_loop is (set_row solver i (set_terms row t)) a))
      else erase_loop is solver a)"

definition erase_artificial :: "amcw_Solver \<Rightarrow> amcw_Symbol \<Rightarrow> amcw_Solver option" where
  "erase_artificial solver a =
     do {
       s1 \<leftarrow> erase_loop (slots (rows solver)) solver a;
       r \<leftarrow> amcw_gettable (terms (payload (objective s1))) a;
       (case r of
          None \<Rightarrow> Some s1
        | Some e \<Rightarrow>
            map_option (\<lambda>t. s1\<lparr>objective := set_terms (objective s1) t\<rparr>)
              (amcw_delkey (terms (payload (objective s1))) e))
     }"

definition amcw_add_with_artificial :: "amcw_Solver \<Rightarrow> amcw_Row \<Rightarrow> cons_ptr \<Rightarrow> (int \<times> amcw_Solver) option" where
  "amcw_add_with_artificial solver row cons =
     do {
       let (a, s0) = amcw_newsymbol solver AMCW_SLACK;
       let s1 = s0\<lparr>symbol_count := symbol_count s0 - 1\<rparr>;
       tmp \<leftarrow> amcw_addrow (amcw_initrow local_row) row 1;
       s2 \<leftarrow> amcw_putrow s1 a row;
       (r, s3, obj) \<leftarrow> amcw_optimize s2 (LocalObjective tmp);
       let tmp1 = obj_row s3 obj;
       let ret = (if amcw_nearzero (row_constant (payload tmp1)) then AMCW_OK else AMCW_UNBOUND);
       (tr, tmp2, s4) \<leftarrow> amcw_takerow s3 a (amcw_freerow tmp1);
       if tr = AMCW_OK \<and> amcw_isconstant tmp2 then Some (ret, s4)
       else do {
         let entry = (case find (\<lambda>term. amcw_ispivotable (key term)) (entries (terms (payload tmp2))) of
                        None \<Rightarrow> amcw_null
                      | Some term \<Rightarrow> key term);
         if tr = AMCW_OK \<and> sym_id entry = 0 then Some (AMCW_UNBOUND, s4)
         else do {
           s5 \<leftarrow> (if tr = AMCW_OK
                  then do {
                    tmp3 \<leftarrow> amcw_solvefor tmp2 entry a;
                    s \<leftarrow> amcw_substitute_rows s4 entry tmp3;
                    amcw_putrow s entry tmp3
                  }
                  else Some s4);
           s6 \<leftarrow> erase_artificial s5 a;
           s7 \<leftarrow> (if ret \<noteq> AMCW_OK then amcw_remove s6 cons else Some s6);
           Some (ret, s7)
         }
       }
     }"

definition amcw_try_addrow :: "amcw_Solver \<Rightarrow> amcw_Row \<Rightarrow> cons_ptr \<Rightarrow> (int \<times> amcw_Solver) option" where
  "amcw_try_addrow solver row cons =
     do {
       c \<leftarrow> get_cons solver cons;
       let subject0 = (case find (\<lambda>term. amcw_isexternal (key term)) (entries (terms (payload row))) of
                         None \<Rightarrow> amcw_null
                       | Some term \<Rightarrow> key term);
       subject1 \<leftarrow>
         (if sym_id subject0 = 0 \<and> amcw_ispivotable (marker c)
          then (case amcw_gettable (terms (payload row)) (marker c) of
                  Some (Some e) \<Rightarrow>
                    Some (if payload (hash (terms (payload row)) ! e) < 0 then marker c else subject0)
                | _ \<Rightarrow> None)
          else Some subject0);
       subject2 \<leftarrow>
         (if sym_id subject1 = 0 \<and> amcw_ispivotable (other c)
          then (case amcw_gettable (terms (payload row)) (other c) of
                  Some (Some e) \<Rightarrow>
                    Some (if payload (hash (terms (payload row)) ! e) < 0 then other c else subject1)
                | _ \<Rightarrow> None)
          else Some subject1);
       if sym_id subject2 = 0
            \<and> find (\<lambda>term. \<not> amcw_isdummy (key term)) (entries (terms (payload row))) = None
            \<and> \<not> amcw_nearzero (row_constant (payload row))
       then Some (AMCW_UNSATISFIED, solver)
       else do {
         let subject = (if sym_id subject2 = 0
                           \<and> find (\<lambda>term. \<not> amcw_isdummy (key term)) (entries (terms (payload row))) = None
                        then marker c else subject2);
         if sym_id subject = 0 then amcw_add_with_artificial solver row cons
         else do {
           row1 \<leftarrow> amcw_solvefor row subject amcw_null;
           s1 \<leftarrow> amcw_substitute_rows solver subject row1;
           s2 \<leftarrow> amcw_putrow s1 subject row1;
           Some (AMCW_OK, s2)
         }
       }
     }"

definition amcw_add :: "amcw_Solver \<Rightarrow> cons_ptr \<Rightarrow> (int \<times> amcw_Solver) option" where
  "amcw_add solver cons =
     (if cons = 0 then Some (AMCW_FAILED, solver)
      else do {
        c \<leftarrow> get_cons solver cons;
        if sym_id (marker c) \<noteq> 0 then Some (AMCW_FAILED, solver)
        else do {
          let oldsym = symbol_count solver;
          (row, s1) \<leftarrow> amcw_makerow solver cons;
          (ret, s2) \<leftarrow> amcw_try_addrow s1 row cons;
          s3 \<leftarrow> (if ret \<noteq> AMCW_OK
                 then do {
                   s \<leftarrow> amcw_remove_errors s2 cons;
                   Some (s\<lparr>symbol_count := oldsym\<rparr>)
                 }
                 else do {
                   (r, s, obj) \<leftarrow> amcw_optimize s2 SolverObjective;
                   if auto_update s \<noteq> 0 then amcw_updatevars s else Some s
                 });
          if sym_id (infeasible_rows s3) \<noteq> 0 then None else Some (ret, s3)
        }
      })"

text \<open>The loop of \<^verbatim>\<open>amcw_delta_edit_constant\<close> over the rows.\<close>

fun delta_loop :: "nat list \<Rightarrow> amcw_Solver \<Rightarrow> amcw_Num \<Rightarrow> amcw_Symbol \<Rightarrow> amcw_Solver option" where
  "delta_loop [] solver delta mk = Some solver"
| "delta_loop (i # is) solver delta mk =
     (if i < length (hash (rows solver)) \<and> live (hash (rows solver) ! i)
      then (let row = hash (rows solver) ! i
            in case amcw_gettable (terms (payload row)) mk of
                 None \<Rightarrow> None
               | Some None \<Rightarrow> delta_loop is solver delta mk
               | Some (Some e) \<Rightarrow>
                   (let s1 = set_row solver i
                               (set_constant row (row_constant (payload row)
                                  + payload (hash (terms (payload row)) ! e) * delta))
                    in case (if amcw_isexternal (key row)
                             then (case amcw_sym2var s1 (key row) of
                                     None \<Rightarrow> None
                                   | Some p \<Rightarrow> amcw_markdirty s1 p)
                             else Some (amcw_infeasible s1 i)) of
                         None \<Rightarrow> None
                       | Some s2 \<Rightarrow> delta_loop is s2 delta mk))
      else delta_loop is solver delta mk)"

definition amcw_delta_edit_constant :: "amcw_Solver \<Rightarrow> amcw_Num \<Rightarrow> cons_ptr \<Rightarrow> amcw_Solver option" where
  "amcw_delta_edit_constant solver delta cons =
     do {
       c \<leftarrow> get_cons solver cons;
       r1 \<leftarrow> amcw_gettable (rows solver) (marker c);
       (case r1 of
          Some i \<Rightarrow>
            (let row = hash (rows solver) ! i
             in Some (amcw_infeasible
                        (set_row solver i (set_constant row (row_constant (payload row) - delta))) i))
        | None \<Rightarrow>
            do {
              r2 \<leftarrow> amcw_gettable (rows solver) (other c);
              (case r2 of
                 Some i \<Rightarrow>
                   (let row = hash (rows solver) ! i
                    in Some (amcw_infeasible
                               (set_row solver i (set_constant row (row_constant (payload row) + delta))) i))
               | None \<Rightarrow> delta_loop (slots (rows solver)) solver delta (marker c))
            })
     }"

text \<open>The loop of \<^verbatim>\<open>amcw_dual_optimize\<close> over the terms of the infeasible row.\<close>

fun dual_enter :: "amcw_Row \<Rightarrow> amcw_Term list \<Rightarrow> amcw_Num \<Rightarrow> amcw_Symbol \<Rightarrow> amcw_Symbol option" where
  "dual_enter obj [] min_ratio enter = Some enter"
| "dual_enter obj (term # ts) min_ratio enter =
     (if amcw_isdummy (key term) \<or> payload term \<le> 0 then dual_enter obj ts min_ratio enter
      else case amcw_gettable (terms (payload obj)) (key term) of
             None \<Rightarrow> None
           | Some ot \<Rightarrow>
               (let r = (case ot of
                           None \<Rightarrow> 0
                         | Some e \<Rightarrow> payload (hash (terms (payload obj)) ! e) / payload term)
                in if min_ratio > r then dual_enter obj ts r (key term)
                   else dual_enter obj ts min_ratio enter))"

partial_function (option) amcw_dual_optimize :: "amcw_Solver \<Rightarrow> amcw_Solver option" where
  "amcw_dual_optimize solver =
     (if sym_id (infeasible_rows solver) = 0 then Some solver
      else case amcw_gettable (rows solver) (infeasible_rows solver) of
             None \<Rightarrow> None
           | Some None \<Rightarrow> None
           | Some (Some i) \<Rightarrow>
               (let row = hash (rows solver) ! i;
                    leave = key row;
                    s1 = (set_row solver i (row\<lparr>payload := (payload row)\<lparr>infeasible_next := amcw_null\<rparr>\<rparr>))
                           \<lparr>infeasible_rows := infeasible_next (payload row)\<rparr>
                in if amcw_nearzero (row_constant (payload row)) \<or> row_constant (payload row) \<ge> 0
                   then amcw_dual_optimize s1
                   else case dual_enter (objective s1) (entries (terms (payload row))) AMCW_NUM_MAX amcw_null of
                          None \<Rightarrow> None
                        | Some enter \<Rightarrow>
                            (if sym_id enter = 0 then None
                             else case amcw_takerow s1 leave local_row of
                                    None \<Rightarrow> None
                                  | Some (r, tmp, s2) \<Rightarrow>
                                      (case amcw_solvefor tmp enter leave of
                                         None \<Rightarrow> None
                                       | Some tmp1 \<Rightarrow>
                                           (case amcw_substitute_rows s2 enter tmp1 of
                                              None \<Rightarrow> None
                                            | Some s3 \<Rightarrow>
                                                (case amcw_putrow s3 enter tmp1 of
                                                   None \<Rightarrow> None
                                                 | Some s4 \<Rightarrow> amcw_dual_optimize s4))))))"

declare amcw_dual_optimize.simps [code]

text \<open>\<^verbatim>\<open>memset(solver, 0, sizeof(*solver))\<close> and the initialisation of the tables.\<close>

definition amcw_newsolver :: amcw_Solver where
  "amcw_newsolver =
     \<lparr>objective = amcw_initrow local_row,
      vars = amcw_inittable sizeof_VarEntry,
      constraints = amcw_inittable sizeof_ConsEntry,
      rows = amcw_inittable sizeof_Row,
      symbol_count = 0, constraint_count = 0, auto_update = 0,
      infeasible_rows = amcw_null, dirty_vars = amcw_null,
      var_mem = [], cons_mem = []\<rparr>"

definition amcw_setstrength :: "amcw_Solver \<Rightarrow> cons_ptr \<Rightarrow> amcw_Num \<Rightarrow> (int \<times> amcw_Solver) option" where
  "amcw_setstrength solver cons st0 =
     (if cons = 0 then Some (AMCW_FAILED, solver)
      else do {
        c \<leftarrow> get_cons solver cons;
        let st = (if amcw_nearzero st0 then AMCW_REQUIRED else st0);
        if strength c = st then Some (AMCW_OK, solver)
        else if strength c \<ge> AMCW_REQUIRED \<or> st \<ge> AMCW_REQUIRED
        then do {
          s1 \<leftarrow> amcw_remove solver cons;
          c1 \<leftarrow> get_cons s1 cons;
          amcw_add (put_cons s1 cons (c1\<lparr>strength := st\<rparr>)) cons
        }
        else do {
          s1 \<leftarrow> (if sym_id (marker c) \<noteq> 0
                 then do {
                   let diff = st - strength c;
                   obj1 \<leftarrow> amcw_mergerow solver (objective solver) (marker c) diff;
                   obj2 \<leftarrow> amcw_mergerow solver obj1 (other c) diff;
                   (r, s, obj) \<leftarrow> amcw_optimize (solver\<lparr>objective := obj2\<rparr>) SolverObjective;
                   if auto_update s \<noteq> 0 then amcw_updatevars s else Some s
                 }
                 else Some solver);
          c1 \<leftarrow> get_cons s1 cons;
          Some (AMCW_OK, put_cons s1 cons (c1\<lparr>strength := st\<rparr>))
        }
      })"

definition amcw_addedit :: "amcw_Solver \<Rightarrow> var_ptr \<Rightarrow> amcw_Num \<Rightarrow> (int \<times> amcw_Solver) option" where
  "amcw_addedit solver var st0 =
     (if var = 0 then Some (AMCW_FAILED, solver)
      else do {
        v \<leftarrow> get_var solver var;
        let st = (if st0 \<ge> AMCW_STRONG then AMCW_STRONG else st0);
        if constraint v \<noteq> 0 then amcw_setstrength solver (constraint v) st
        else if sym_id (sym v) = 0 then None
        else do {
          (cons, s1) \<leftarrow> amcw_newconstraint solver st;
          (r1, s2) \<leftarrow> amcw_setrelation s1 cons AMCW_EQUAL;
          (r2, s3) \<leftarrow> amcw_addterm s2 cons var 1;
          (r3, s4) \<leftarrow> amcw_addconstant s3 cons (- var_value v);
          (r4, s5) \<leftarrow> amcw_add s4 cons;
          if r4 \<noteq> AMCW_OK then None
          else do {
            v1 \<leftarrow> get_var s5 var;
            Some (AMCW_OK, put_var s5 var (v1\<lparr>constraint := cons, edit_value := var_value v1\<rparr>))
          }
        }
      })"

definition amcw_suggest :: "amcw_Solver \<Rightarrow> var_ptr \<Rightarrow> amcw_Num \<Rightarrow> amcw_Solver option" where
  "amcw_suggest solver var x =
     (if var = 0 then Some solver
      else do {
        v0 \<leftarrow> get_var solver var;
        s1 \<leftarrow> (if constraint v0 = 0
               then do {
                 (r, s) \<leftarrow> amcw_addedit solver var AMCW_MEDIUM;
                 v \<leftarrow> get_var s var;
                 if constraint v = 0 then None else Some s
               }
               else Some solver);
        v \<leftarrow> get_var s1 var;
        let delta = x - edit_value v;
        let s2 = put_var s1 var (v\<lparr>edit_value := x\<rparr>);
        s3 \<leftarrow> amcw_delta_edit_constant s2 delta (constraint v);
        s4 \<leftarrow> amcw_dual_optimize s3;
        if auto_update s4 \<noteq> 0 then amcw_updatevars s4 else Some s4
      })"

text \<open>
  \<^verbatim>\<open>amcw_delvariable\<close> and \<^verbatim>\<open>amcw_delconstraint\<close>. \<^verbatim>\<open>amcw_free\<close> gives the
  object back to the pool; the model leaves it in the store. The loop of
  \<^verbatim>\<open>amcw_delconstraint\<close> goes over the terms of the expression, which no call in its
  body changes.
\<close>

definition amcw_delvariable :: "amcw_Solver \<Rightarrow> var_ptr \<Rightarrow> amcw_Solver option" where
  "amcw_delvariable solver var =
     (if var = 0 then Some solver
      else do {
        v \<leftarrow> get_var solver var;
        let s1 = put_var solver var (v\<lparr>refcount := refcount v - 1\<rparr>);
        if refcount v - 1 \<le> 0
        then do {
          r \<leftarrow> amcw_gettable (vars s1) (sym v);
          (case r of
             None \<Rightarrow> None
           | Some e \<Rightarrow>
               do {
                 t \<leftarrow> amcw_delkey (vars s1) e;
                 amcw_remove (s1\<lparr>vars := t\<rparr>) (constraint v)
               })
        }
        else Some s1
      })"

fun delconstraint_loop :: "amcw_Term list \<Rightarrow> amcw_Solver \<Rightarrow> amcw_Solver option" where
  "delconstraint_loop [] solver = Some solver"
| "delconstraint_loop (tm # ts) solver =
     (case amcw_sym2var solver (key tm) of
        None \<Rightarrow> None
      | Some p \<Rightarrow>
          (case amcw_delvariable solver p of
             None \<Rightarrow> None
           | Some s1 \<Rightarrow> delconstraint_loop ts s1))"

definition amcw_delconstraint :: "amcw_Solver \<Rightarrow> cons_ptr \<Rightarrow> amcw_Solver option" where
  "amcw_delconstraint solver cons =
     (if cons = 0 then Some solver
      else do {
        s1 \<leftarrow> amcw_remove solver cons;
        c \<leftarrow> get_cons s1 cons;
        r \<leftarrow> amcw_gettable (constraints s1) (key (expression c));
        (case r of
           None \<Rightarrow> None
         | Some e \<Rightarrow>
             do {
               t \<leftarrow> amcw_delkey (constraints s1) e;
               s2 \<leftarrow> delconstraint_loop (entries (terms (payload (expression c))))
                       (s1\<lparr>constraints := t\<rparr>);
               c2 \<leftarrow> get_cons s2 cons;
               Some (put_cons s2 cons (c2\<lparr>expression := amcw_freerow (expression c2)\<rparr>))
             })
      })"

section \<open>Example states\<close>

text \<open>
  A solver with one variable \<open>x\<close> (pointer 1) and the required constraint \<open>x = 1\<close>
  (pointer 1), built with the public functions: before the constraint is added, after it
  is added, and after the values are published.
\<close>

definition ex_built :: "amcw_Solver option" where
  "ex_built =
     do {
       (x, s1) \<leftarrow> amcw_newvariable amcw_newsolver;
       (c, s2) \<leftarrow> amcw_newconstraint s1 AMCW_REQUIRED;
       (r1, s3) \<leftarrow> amcw_addterm s2 c x 1;
       (r2, s4) \<leftarrow> amcw_setrelation s3 c AMCW_EQUAL;
       (r3, s5) \<leftarrow> amcw_addconstant s4 c 1;
       Some s5
     }"

definition ex_added :: "amcw_Solver option" where
  "ex_added = do { s \<leftarrow> ex_built; (r, s1) \<leftarrow> amcw_add s 1; Some s1 }"

definition ex_published :: "amcw_Solver option" where
  "ex_published = do { s \<leftarrow> ex_added; amcw_updatevars s }"

section \<open>Predicates of the claims\<close>

text \<open>
  The value that \<^verbatim>\<open>amcw_updatevars\<close> publishes for a symbol: the constant of the row
  keyed by it, or 0 when there is no such row.
\<close>

definition row_value :: "amcw_Solver \<Rightarrow> amcw_Symbol \<Rightarrow> amcw_Num" where
  "row_value solver sy =
     (case amcw_gettable (rows solver) sy of
        Some (Some i) \<Rightarrow> row_constant (payload (hash (rows solver) ! i))
      | _ \<Rightarrow> 0)"

text \<open>
  The variables on the dirty list: the one that \<open>dirty_vars\<close> names, and the one that
  the \<open>dirty_next\<close> of a variable on the list names.
\<close>

inductive on_dirty_list :: "amcw_Solver \<Rightarrow> var_ptr \<Rightarrow> bool" for solver :: amcw_Solver where
  head: "sym_id (dirty_vars solver) \<noteq> 0 \<Longrightarrow> amcw_sym2var solver (dirty_vars solver) = Some p
         \<Longrightarrow> on_dirty_list solver p"
| link: "on_dirty_list solver q \<Longrightarrow> get_var solver q = Some v \<Longrightarrow> sym_id (dirty_next v) \<noteq> 0
         \<Longrightarrow> amcw_sym2var solver (dirty_next v) = Some p \<Longrightarrow> on_dirty_list solver p"

code_pred on_dirty_list .

text \<open>What \<^verbatim>\<open>amcw_updatevars\<close> makes of a dirty variable \<open>v\<close>.\<close>

definition published :: "amcw_Solver \<Rightarrow> amcw_Var \<Rightarrow> amcw_Var" where
  "published solver v = v\<lparr>dirty_next := amcw_null, var_value := row_value solver (sym v)\<rparr>"

text \<open>
  The contents of a table: the multiset of the (key, payload) pairs of its live slots.
\<close>

definition kp :: "'a amcw_Entry \<Rightarrow> amcw_Symbol \<times> 'a" where
  "kp e = (key e, payload e)"

definition live_mset :: "'a amcw_Entry list \<Rightarrow> (amcw_Symbol \<times> 'a) multiset" where
  "live_mset h = mset (map kp (filter live h))"

text \<open>
  The invariants of a row that claim C8 names: no live term has a coefficient near zero, and
  \<open>count\<close> is the number of live terms. \<open>table_small\<close> bounds the number of slots by
  what a 64-bit \<^verbatim>\<open>size_t\<close> can count.
\<close>

definition terms_ok :: "amcw_Num amcw_Table \<Rightarrow> bool" where
  "terms_ok t = (\<forall>term \<in> set (entries t). \<not> amcw_nearzero (payload term))"

definition count_ok :: "'a amcw_Table \<Rightarrow> bool" where
  "count_ok t = (unat (count t) = length (entries t))"

definition table_small :: "'a amcw_Table \<Rightarrow> bool" where
  "table_small t = (length (hash t) < 2 ^ 64)"

definition row_ok :: "amcw_Row \<Rightarrow> bool" where
  "row_ok row = (terms_ok (terms (payload row)) \<and> count_ok (terms (payload row))
                 \<and> table_small (terms (payload row)))"




text \<open>
  The rows among which \<^verbatim>\<open>amcw_optimize\<close> looks for the leaving row, for an entering symbol:
  the key is pivotable and the row holds the entering symbol with a negative coefficient.
  \<open>leaving_ratio\<close> is the ratio the loop compares.
\<close>

definition entry_coeff :: "amcw_Row \<Rightarrow> amcw_Symbol \<Rightarrow> amcw_Num option" where
  "entry_coeff row sy =
     (case amcw_gettable (terms (payload row)) sy of
        Some (Some e) \<Rightarrow> Some (payload (hash (terms (payload row)) ! e))
      | _ \<Rightarrow> None)"






text \<open>
  \<^verbatim>\<open>amcw_infeasible\<close> and \<^verbatim>\<open>amcw_markdirty\<close> test the kind of the link of a row
  or a variable to know whether it is on the list already.
\<close>

definition inf_tagged :: "amcw_Row \<Rightarrow> bool" where
  "inf_tagged row = amcw_isdummy (infeasible_next (payload row))"

definition is_dirty :: "amcw_Var \<Rightarrow> bool" where
  "is_dirty v = (sym_type (dirty_next v) = AMCW_DUMMY)"

text \<open>
  The rows on the infeasible list, by their slots: the row that \<^verbatim>\<open>amcw_gettable\<close> finds
  for \<open>infeasible_rows\<close>, and the row that it finds for the \<open>infeasible_next\<close> of a
  row on the list. This is the walk of \<^verbatim>\<open>amcw_dual_optimize\<close>.
\<close>

inductive on_infeasible_list :: "amcw_Solver \<Rightarrow> nat \<Rightarrow> bool" for solver :: amcw_Solver where
  head: "sym_id (infeasible_rows solver) \<noteq> 0
         \<Longrightarrow> amcw_gettable (rows solver) (infeasible_rows solver) = Some (Some i)
         \<Longrightarrow> on_infeasible_list solver i"
| link: "on_infeasible_list solver i
         \<Longrightarrow> sym_id (infeasible_next (payload (hash (rows solver) ! i))) \<noteq> 0
         \<Longrightarrow> amcw_gettable (rows solver) (infeasible_next (payload (hash (rows solver) ! i))) = Some (Some j)
         \<Longrightarrow> on_infeasible_list solver j"

text \<open>
  Well-formed tables and lists. The lookup of the key of a row finds the slot of the row;
  every entry of \<open>vars\<close> names a variable of the store whose symbol is found at that
  entry; the rows on the infeasible list are the rows with the mark, and the variables on the
  dirty list are the variables with the mark.
\<close>

definition rows_indexed :: "amcw_Solver \<Rightarrow> bool" where
  "rows_indexed s =
     (\<forall>j < length (hash (rows s)). live (hash (rows s) ! j) \<longrightarrow>
        amcw_gettable (rows s) (key (hash (rows s) ! j)) = Some (Some j))"

definition vars_indexed :: "amcw_Solver \<Rightarrow> bool" where
  "vars_indexed s =
     (\<forall>e < length (hash (vars s)). live (hash (vars s) ! e) \<longrightarrow>
        (case get_var s (payload (hash (vars s) ! e)) of
           None \<Rightarrow> False
         | Some v \<Rightarrow> amcw_sym2var s (sym v) = Some (payload (hash (vars s) ! e))))"

definition inf_list_ok :: "amcw_Solver \<Rightarrow> bool" where
  "inf_list_ok s =
     ((\<forall>i. on_infeasible_list s i \<longrightarrow> inf_tagged (hash (rows s) ! i))
      \<and> (\<forall>j < length (hash (rows s)). live (hash (rows s) ! j) \<longrightarrow>
            inf_tagged (hash (rows s) ! j) \<longrightarrow> on_infeasible_list s j))"

definition dirty_list_ok :: "amcw_Solver \<Rightarrow> bool" where
  "dirty_list_ok s =
     ((\<forall>p. on_dirty_list s p \<longrightarrow> (\<exists>v. get_var s p = Some v \<and> is_dirty v))
      \<and> (\<forall>p v. get_var s p = Some v \<longrightarrow> is_dirty v \<longrightarrow> on_dirty_list s p))"

definition lists_ok :: "amcw_Solver \<Rightarrow> bool" where
  "lists_ok s = (rows_indexed s \<and> vars_indexed s \<and> inf_list_ok s \<and> dirty_list_ok s)"

text \<open>
  What the loop of \<^verbatim>\<open>amcw_delta_edit_constant\<close> needs to return: the lookup of the
  marker ends in every row, and the key of every row with an external key is a key of
  \<open>vars\<close> (the \<^verbatim>\<open>assert\<close> of \<^verbatim>\<open>amcw_sym2var\<close>).
\<close>

definition delta_ready :: "amcw_Solver \<Rightarrow> amcw_Symbol \<Rightarrow> bool" where
  "delta_ready s mk =
     (\<forall>j < length (hash (rows s)). live (hash (rows s) ! j) \<longrightarrow>
        amcw_gettable (terms (payload (hash (rows s) ! j))) mk \<noteq> None
        \<and> (amcw_isexternal (key (hash (rows s) ! j)) \<longrightarrow>
              amcw_sym2var s (key (hash (rows s) ! j)) \<noteq> None))"

text \<open>
  Slot \<open>j\<close> of the tableau holds a row in which the lookup of \<^verbatim>\<open>amcw_delta_edit_constant\<close>
  finds the symbol \<open>mk\<close> as a term.
\<close>

definition touched :: "amcw_Solver \<Rightarrow> amcw_Symbol \<Rightarrow> nat \<Rightarrow> bool" where
  "touched s mk j = (live (hash (rows s) ! j) \<and> entry_coeff (hash (rows s) ! j) mk \<noteq> None)"

text \<open>
  The frame of \<^verbatim>\<open>amcw_delta_edit_constant\<close>: the rows keep their slots, keys, chains
  and terms, the table of the variables and the symbols of the variables are the same, a row
  on the infeasible list stays on it and a variable on the dirty list stays on it.
\<close>

definition rows_frame :: "amcw_Solver \<Rightarrow> amcw_Solver \<Rightarrow> bool" where
  "rows_frame s s' =
     (map key (hash (rows s')) = map key (hash (rows s))
      \<and> map e_next (hash (rows s')) = map e_next (hash (rows s))
      \<and> map (\<lambda>r. terms (payload r)) (hash (rows s')) = map (\<lambda>r. terms (payload r)) (hash (rows s))
      \<and> vars s' = vars s
      \<and> map sym (var_mem s') = map sym (var_mem s)
      \<and> (\<forall>i. on_infeasible_list s i \<longrightarrow> on_infeasible_list s' i)
      \<and> (\<forall>p. on_dirty_list s p \<longrightarrow> on_dirty_list s' p))"

text \<open>
  The solver of \<open>ex_added\<close> with a second required constraint \<open>x = 2\<close> (pointer 2)
  built and not yet added: adding it fails.
\<close>

definition ex_conflict :: "amcw_Solver option" where
  "ex_conflict =
     do {
       s \<leftarrow> ex_added;
       (c, s1) \<leftarrow> amcw_newconstraint s AMCW_REQUIRED;
       (r1, s2) \<leftarrow> amcw_addterm s1 c 1 1;
       (r2, s3) \<leftarrow> amcw_setrelation s2 c AMCW_EQUAL;
       (r3, s4) \<leftarrow> amcw_addconstant s3 c 2;
       Some s4
     }"

text \<open>
  The solver of \<open>ex_added\<close> after \<^verbatim>\<open>amcw_delvariable\<close> of \<open>x\<close> and
  \<^verbatim>\<open>amcw_delconstraint\<close> of its constraint: the last reference to \<open>x\<close> is gone.
\<close>

definition ex_deleted :: "amcw_Solver option" where
  "ex_deleted = do { s \<leftarrow> ex_added; s1 \<leftarrow> amcw_delvariable s 1; amcw_delconstraint s1 1 }"

text \<open>
  A solver with the variable \<open>x\<close> (pointer 1), the required constraint \<open>x \<le> 100\<close>
  (pointer 1) and an edit constraint of strength \<open>AMCW_STRONG\<close> on \<open>x\<close> (pointer 2),
  with the values published; and the same solver after the suggestion of 150 for \<open>x\<close>,
  with the values published again.
\<close>

definition ex_bound :: "amcw_Solver option" where
  "ex_bound =
     do {
       (x, s1) \<leftarrow> amcw_newvariable amcw_newsolver;
       (c, s2) \<leftarrow> amcw_newconstraint s1 AMCW_REQUIRED;
       (r1, s3) \<leftarrow> amcw_addterm s2 c x 1;
       (r2, s4) \<leftarrow> amcw_setrelation s3 c AMCW_LESSEQUAL;
       (r3, s5) \<leftarrow> amcw_addconstant s4 c 100;
       (r4, s6) \<leftarrow> amcw_add s5 c;
       (r5, s7) \<leftarrow> amcw_addedit s6 x AMCW_STRONG;
       amcw_updatevars s7
     }"

definition ex_pushed :: "amcw_Solver option" where
  "ex_pushed = do { s \<leftarrow> ex_bound; s1 \<leftarrow> amcw_suggest s 1 150; amcw_updatevars s1 }"

(*DEFS-END*)

section \<open>Symbol allocation\<close>

lemma uint_succ_30: "(x :: 32 word) \<le> 0x3FFFFFFF \<Longrightarrow> uint (x + 1) = uint x + 1"
  by (simp add: word_le_def uint_word_ariths take_bit_int_eq_self)

lemma newsymbol_count:
  "symbol_count (snd (amcw_newsymbol solver ty)) =
     (if symbol_count solver + 1 > 0x3FFFFFFF then 1 else symbol_count solver + 1)"
  by (simp add: amcw_newsymbol_def Let_def)

lemma newsymbol_id:
  "sym_id (fst (amcw_newsymbol solver ty)) = ucast (symbol_count (snd (amcw_newsymbol solver ty)))"
  by (simp add: amcw_newsymbol_def Let_def)

lemma ucast_30_uint: "(w :: 32 word) \<le> 0x3FFFFFFF \<Longrightarrow> uint (ucast w :: 30 word) = uint w"
  by (simp add: unsigned_ucast_eq take_bit_int_eq_self_iff word_le_def)

text \<open>
  The counter after \<open>n\<close> allocations from a new solver is \<open>n\<close>, as long as \<open>n\<close> is
  at most \<open>2^30 - 1\<close>: every such counter value is reached.
\<close>

lemma newsymbol_iterate:
  "n \<le> 1073741823 \<Longrightarrow>
   symbol_count (((\<lambda>s. snd (amcw_newsymbol s ty)) ^^ n) amcw_newsolver) = of_nat n"
proof (induction n)
  case 0
  show ?case by (simp add: amcw_newsolver_def)
next
  case (Suc n)
  then have ih: "symbol_count (((\<lambda>s. snd (amcw_newsymbol s ty)) ^^ n) amcw_newsolver) = of_nat n"
    by simp
  have "(of_nat n :: 32 word) + 1 = of_nat (Suc n)" by simp
  moreover have "unat (of_nat (Suc n) :: 32 word) = Suc n"
    using Suc.prems by (simp add: unat_of_nat del: of_nat_Suc)
  then have "\<not> (of_nat (Suc n) :: 32 word) > 0x3FFFFFFF"
    using Suc.prems by (simp add: word_less_nat_alt del: of_nat_Suc)
  ultimately show ?case
    by (simp add: newsymbol_count ih del: of_nat_Suc)
qed

text \<open>
  Claim C4, as amended. While the counter is at most \<open>2^30 - 1\<close> (it starts at 0 and every
  allocation keeps it there), the id issued by \<^verbatim>\<open>amcw_newsymbol\<close> is in the range
  \<open>1 .. 2^30 - 1\<close> and equals the new counter. Below \<open>2^30 - 1\<close> the id is the old
  counter plus one, so of two allocations made one directly after the other the second id is
  the first plus one; at \<open>2^30 - 1\<close> the allocator wraps and issues id 1 again. The id
  depends on the counter only: whenever the counter has an earlier value again (after the
  wrap, or after \<^verbatim>\<open>amcw_add\<close> has restored it on a failure), the id issued then is
  issued again. So ids are increasing only along allocations that directly follow each
  other below the wrap, and ids are not unique.
\<close>

theorem newsymbol_id_range:
  assumes "symbol_count solver \<le> 0x3FFFFFFF"
  shows "1 \<le> uint (sym_id (fst (amcw_newsymbol solver ty)))
       \<and> uint (sym_id (fst (amcw_newsymbol solver ty))) \<le> 2 ^ 30 - 1
       \<and> symbol_count (snd (amcw_newsymbol solver ty)) \<le> 0x3FFFFFFF
       \<and> uint (sym_id (fst (amcw_newsymbol solver ty)))
           = uint (symbol_count (snd (amcw_newsymbol solver ty)))
       \<and> (symbol_count solver < 0x3FFFFFFF \<longrightarrow>
            uint (sym_id (fst (amcw_newsymbol solver ty))) = uint (symbol_count solver) + 1)
       \<and> (symbol_count solver < 0x3FFFFFFE \<longrightarrow>
            uint (sym_id (fst (amcw_newsymbol (snd (amcw_newsymbol solver ty)) ty')))
              = uint (sym_id (fst (amcw_newsymbol solver ty))) + 1)
       \<and> (symbol_count solver = 0x3FFFFFFF \<longrightarrow> sym_id (fst (amcw_newsymbol solver ty)) = 1)
       \<and> (\<forall>solver'. symbol_count solver' = symbol_count solver \<longrightarrow>
            sym_id (fst (amcw_newsymbol solver' ty')) = sym_id (fst (amcw_newsymbol solver ty)))"
proof -
  let ?c = "symbol_count (snd (amcw_newsymbol solver ty))"
  note s = uint_succ_30 [OF assms]
  have c: "?c = (if symbol_count solver + 1 > 0x3FFFFFFF then 1 else symbol_count solver + 1)"
    by (rule newsymbol_count)
  have le: "?c \<le> 0x3FFFFFFF" unfolding c by (simp add: not_less)
  have ne: "1 \<le> uint ?c" unfolding c using s by simp
  have u: "uint (sym_id (fst (amcw_newsymbol solver ty))) = uint ?c"
    unfolding newsymbol_id by (rule ucast_30_uint [OF le])
  have r1: "1 \<le> uint (sym_id (fst (amcw_newsymbol solver ty)))" using u ne by simp
  have r2: "uint (sym_id (fst (amcw_newsymbol solver ty))) \<le> 2 ^ 30 - 1"
    using u le by (simp add: word_le_def)
  have r3: "symbol_count solver < 0x3FFFFFFF \<longrightarrow>
            uint (sym_id (fst (amcw_newsymbol solver ty))) = uint (symbol_count solver) + 1"
    unfolding u c using s by (simp add: word_less_def)
  have r4: "symbol_count solver = 0x3FFFFFFF \<longrightarrow> sym_id (fst (amcw_newsymbol solver ty)) = 1"
    unfolding newsymbol_id c by simp
  have r5: "uint (sym_id (fst (amcw_newsymbol (snd (amcw_newsymbol solver ty)) ty')))
              = uint (sym_id (fst (amcw_newsymbol solver ty))) + 1"
    if lt: "symbol_count solver < 0x3FFFFFFE"
  proof -
    let ?s1 = "snd (amcw_newsymbol solver ty)"
    let ?c2 = "symbol_count (snd (amcw_newsymbol ?s1 ty'))"
    have l1: "uint (symbol_count solver) < 0x3FFFFFFE" using lt by (simp add: word_less_def)
    have u1: "uint ?c = uint (symbol_count solver) + 1" unfolding c using s l1 by (simp add: word_less_def)
    then have l2: "?c < 0x3FFFFFFF" using l1 by (simp add: word_less_def)
    have c2: "?c2 = (if ?c + 1 > 0x3FFFFFFF then 1 else ?c + 1)" by (rule newsymbol_count)
    have u2: "uint ?c2 = uint ?c + 1"
      unfolding c2 using uint_succ_30 [OF le] l2 by (simp add: word_less_def)
    then have le2: "?c2 \<le> 0x3FFFFFFF" using l2 by (simp add: word_le_def word_less_def)
    have "uint (sym_id (fst (amcw_newsymbol ?s1 ty'))) = uint ?c2"
      unfolding newsymbol_id by (rule ucast_30_uint [OF le2])
    then show ?thesis using u u2 by simp
  qed
  have r6: "sym_id (fst (amcw_newsymbol solver' ty')) = sym_id (fst (amcw_newsymbol solver ty))"
    if "symbol_count solver' = symbol_count solver" for solver'
    using that by (simp add: amcw_newsymbol_def Let_def)
  show ?thesis using r1 r2 le u r3 r4 r5 r6 by blast
qed

theorem newsymbol_id_range_witness:
  "symbol_count amcw_newsolver < 0x3FFFFFFE
   \<and> uint (sym_id (fst (amcw_newsymbol amcw_newsolver AMCW_SLACK))) = 1
   \<and> uint (sym_id (fst (amcw_newsymbol (snd (amcw_newsymbol amcw_newsolver AMCW_SLACK)) AMCW_ERROR))) = 2
   \<and> symbol_count (amcw_newsolver\<lparr>symbol_count := 0x3FFFFFFF\<rparr>) = 0x3FFFFFFF
   \<and> sym_id (fst (amcw_newsymbol (amcw_newsolver\<lparr>symbol_count := 0x3FFFFFFF\<rparr>) AMCW_SLACK)) = 1
   \<and> symbol_count (the ex_conflict) = 2
   \<and> map_option (\<lambda>(row, s). map_option marker (get_cons s 2)) (amcw_makerow (the ex_conflict) 2)
       = Some (Some \<lparr>sym_id = 3, sym_type = AMCW_DUMMY\<rparr>)
   \<and> map_option fst (amcw_add (the ex_conflict) 2) = Some AMCW_UNSATISFIED
   \<and> map_option (\<lambda>(r, s). symbol_count s) (amcw_add (the ex_conflict) 2) = Some 2
   \<and> sym_id (fst (amcw_newsymbol (snd (the (amcw_add (the ex_conflict) 2))) AMCW_SLACK)) = 3"
proof -
  have a: "symbol_count amcw_newsolver \<le> 0x3FFFFFFF" "symbol_count amcw_newsolver < 0x3FFFFFFF"
    "symbol_count amcw_newsolver < 0x3FFFFFFE" "uint (symbol_count amcw_newsolver) = 0"
    by (simp_all add: amcw_newsolver_def)
  have b: "symbol_count (amcw_newsolver\<lparr>symbol_count := 0x3FFFFFFF\<rparr>) \<le> 0x3FFFFFFF"
    "symbol_count (amcw_newsolver\<lparr>symbol_count := 0x3FFFFFFF\<rparr>) = 0x3FFFFFFF"
    by simp_all
  have c: "symbol_count (the ex_conflict) = 2" by code_simp
  have c': "symbol_count (the ex_conflict) \<le> 0x3FFFFFFF" unfolding c by simp
  have m: "map_option (\<lambda>(row, s). map_option marker (get_cons s 2)) (amcw_makerow (the ex_conflict) 2)
       = Some (Some \<lparr>sym_id = 3, sym_type = AMCW_DUMMY\<rparr>)" by code_simp
  have r: "map_option fst (amcw_add (the ex_conflict) 2) = Some AMCW_UNSATISFIED" by code_simp
  have k: "map_option (\<lambda>(r, s). symbol_count s) (amcw_add (the ex_conflict) 2) = Some 2" by code_simp
  have k': "symbol_count (snd (the (amcw_add (the ex_conflict) 2))) = symbol_count (the ex_conflict)"
    unfolding c by code_simp
  have i: "sym_id (fst (amcw_newsymbol (the ex_conflict) AMCW_DUMMY)) = 3" by code_simp
  note t = newsymbol_id_range [OF c', of AMCW_DUMMY AMCW_SLACK]
  have j: "sym_id (fst (amcw_newsymbol (snd (the (amcw_add (the ex_conflict) 2))) AMCW_SLACK)) = 3"
    using t [THEN conjunct2, THEN conjunct2, THEN conjunct2, THEN conjunct2, THEN conjunct2,
             THEN conjunct2, THEN conjunct2, rule_format, OF k']
    unfolding i .
  note t1 = newsymbol_id_range [OF a(1), of AMCW_SLACK AMCW_ERROR]
  note t2 = newsymbol_id_range [OF b(1), of AMCW_SLACK AMCW_SLACK]
  have f1: "uint (sym_id (fst (amcw_newsymbol amcw_newsolver AMCW_SLACK))) = 1"
    using t1 [THEN conjunct2, THEN conjunct2, THEN conjunct2, THEN conjunct2, THEN conjunct1]
      a(2,4) by simp
  have f2: "uint (sym_id (fst (amcw_newsymbol (snd (amcw_newsymbol amcw_newsolver AMCW_SLACK)) AMCW_ERROR))) = 2"
    using t1 [THEN conjunct2, THEN conjunct2, THEN conjunct2, THEN conjunct2, THEN conjunct2,
              THEN conjunct1] a(3) f1 by simp
  have f3: "sym_id (fst (amcw_newsymbol (amcw_newsolver\<lparr>symbol_count := 0x3FFFFFFF\<rparr>) AMCW_SLACK)) = 1"
    using t2 [THEN conjunct2, THEN conjunct2, THEN conjunct2, THEN conjunct2, THEN conjunct2,
              THEN conjunct2, THEN conjunct1] b(2) by blast
  show ?thesis using a(3) f1 f2 b(2) f3 c m r k j by blast
qed

text \<open>
  Claim C4 as stated fails: the allocation that follows the \<open>2^30 - 1\<close>-th one issues
  id 1, which is not greater than the id \<open>2^30 - 1\<close> issued before it.
\<close>

theorem newsymbol_wraps_counterexample:
  "sym_id (fst (amcw_newsymbol
       (((\<lambda>s. snd (amcw_newsymbol s AMCW_EXTERNAL)) ^^ 1073741822) amcw_newsolver) AMCW_EXTERNAL))
     = 0x3FFFFFFF
   \<and> sym_id (fst (amcw_newsymbol
       (((\<lambda>s. snd (amcw_newsymbol s AMCW_EXTERNAL)) ^^ 1073741823) amcw_newsolver) AMCW_EXTERNAL))
     = 1
   \<and> \<not> (0x3FFFFFFF :: 30 word) < 1"
proof -
  have c1: "symbol_count (((\<lambda>s. snd (amcw_newsymbol s AMCW_EXTERNAL)) ^^ 1073741822) amcw_newsolver)
              = 0x3FFFFFFE"
    using newsymbol_iterate [of 1073741822 AMCW_EXTERNAL] by simp
  have c2: "symbol_count (((\<lambda>s. snd (amcw_newsymbol s AMCW_EXTERNAL)) ^^ 1073741823) amcw_newsolver)
              = 0x3FFFFFFF"
    using newsymbol_iterate [of 1073741823 AMCW_EXTERNAL] by simp
  show ?thesis
    by (simp add: newsymbol_id newsymbol_count c1 c2)
qed

section \<open>Publishing the values: \<^verbatim>\<open>amcw_updatevars\<close>\<close>

lemmas updatevars_induct = amcw_updatevars.raw_induct[rotated 1, consumes 1, case_names step]

lemma get_var_put_var:
  "get_var solver q = Some w \<Longrightarrow>
   get_var ((put_var solver q v)\<lparr>dirty_vars := d\<rparr>) p = (if p = q then Some v else get_var solver p)"
  by (auto simp: get_var_def put_var_def nth_list_update split: if_splits)

lemma sym2var_put_var [simp]:
  "amcw_sym2var ((put_var solver q v)\<lparr>dirty_vars := d\<rparr>) k = amcw_sym2var solver k"
  by (simp add: amcw_sym2var_def put_var_def split: option.splits)

lemma row_value_put_var [simp]:
  "row_value ((put_var solver q v)\<lparr>dirty_vars := d\<rparr>) k = row_value solver k"
  by (simp add: row_value_def put_var_def split: option.splits)

lemma updatevars_head: "amcw_updatevars solver = Some s1 \<Longrightarrow> sym_id (dirty_vars s1) = 0"
proof (induction rule: updatevars_induct)
  case (step upd solver s1)
  then show ?case
    by (auto split: if_splits option.splits)
qed

lemma dirty_forward:
  assumes "on_dirty_list solver p"
    and h: "sym_id (dirty_vars solver) \<noteq> 0" "amcw_sym2var solver (dirty_vars solver) = Some p0"
      "get_var solver p0 = Some var0" "dirty_next v0 = amcw_null"
  shows "p = p0 \<or> on_dirty_list ((put_var solver p0 v0)\<lparr>dirty_vars := dirty_next var0\<rparr>) p"
  using assms(1)
proof (induction rule: on_dirty_list.induct)
  case (head p)
  with h show ?case by simp
next
  case (link q v p)
  let ?s = "(put_var solver p0 v0)\<lparr>dirty_vars := dirty_next var0\<rparr>"
  show ?case
  proof (cases "q = p0")
    case True
    with link h have "sym_id (dirty_vars ?s) \<noteq> 0" "amcw_sym2var ?s (dirty_vars ?s) = Some p"
      by simp_all
    then show ?thesis by (auto intro: on_dirty_list.head)
  next
    case False
    with link have "on_dirty_list ?s q" by simp
    moreover have "get_var ?s q = Some v" using False link h by (simp add: get_var_put_var)
    ultimately show ?thesis using link by (auto intro: on_dirty_list.link)
  qed
qed

lemma dirty_backward:
  assumes "on_dirty_list ((put_var solver p0 v0)\<lparr>dirty_vars := dirty_next var0\<rparr>) p"
    and h: "sym_id (dirty_vars solver) \<noteq> 0" "amcw_sym2var solver (dirty_vars solver) = Some p0"
      "get_var solver p0 = Some var0" "dirty_next v0 = amcw_null"
  shows "on_dirty_list solver p"
  using assms(1)
proof (induction rule: on_dirty_list.induct)
  case (head p)
  have "on_dirty_list solver p0" using h by (auto intro: on_dirty_list.head)
  with head h show ?case by (auto intro: on_dirty_list.link)
next
  case (link q v p)
  have "q \<noteq> p0" using link h by (auto simp: get_var_put_var amcw_null_def)
  with link h have "get_var solver q = Some v" by (simp add: get_var_put_var)
  with link show ?case by (auto intro: on_dirty_list.link)
qed

lemma updatevars_dirty:
  "amcw_updatevars solver = Some s1 \<Longrightarrow>
   (\<forall>p v. get_var solver p = Some v \<longrightarrow>
      (\<exists>v1. get_var s1 p = Some v1 \<and> (v1 = v \<or> v1 = published solver v))) \<and>
   (\<forall>p v. get_var solver p = Some v \<longrightarrow>
      (on_dirty_list solver p \<longrightarrow> (\<exists>v1. get_var s1 p = Some v1 \<and> v1 = published solver v)) \<and>
      (\<not> on_dirty_list solver p \<longrightarrow> get_var s1 p = Some v))"
proof (induction rule: updatevars_induct)
  case (step upd solver s1)
  show ?case
  proof (cases "sym_id (dirty_vars solver) = 0")
    case True
    have "\<not> on_dirty_list solver p" for p
    proof
      assume "on_dirty_list solver p"
      then show False using True
        by (induction rule: on_dirty_list.induct) auto
    qed
    with True step(2) show ?thesis by simp
  next
    case False
    with step(2) obtain p0 var0 r where
      p0: "amcw_sym2var solver (dirty_vars solver) = Some p0" and
      v0: "get_var solver p0 = Some var0" and
      r: "amcw_gettable (rows solver) (sym var0) = Some r" and
      u: "upd ((put_var solver p0
               (var0\<lparr>dirty_next := amcw_null,
                     var_value := (case r of None \<Rightarrow> 0
                                   | Some i \<Rightarrow> row_constant (payload (hash (rows solver) ! i)))\<rparr>))
             \<lparr>dirty_vars := dirty_next var0\<rparr>) = Some s1"
      by (auto split: option.splits)
    let ?v0 = "var0\<lparr>dirty_next := amcw_null,
                     var_value := (case r of None \<Rightarrow> 0
                                   | Some i \<Rightarrow> row_constant (payload (hash (rows solver) ! i)))\<rparr>"
    let ?s = "(put_var solver p0 ?v0)\<lparr>dirty_vars := dirty_next var0\<rparr>"
    have pv: "?v0 = published solver var0"
      using r by (auto simp: published_def row_value_def split: option.splits)
    have dn: "dirty_next ?v0 = amcw_null" by simp
    note ih = step(1) [OF u]
    note each = ih [THEN conjunct1]
    note dirty = ih [THEN conjunct2]
    have at_p0: "\<exists>v1. get_var s1 p0 = Some v1 \<and> v1 = published solver var0"
    proof -
      have "get_var ?s p0 = Some ?v0" by (simp add: get_var_put_var [OF v0])
      with each obtain v1 where "get_var s1 p0 = Some v1" "v1 = ?v0 \<or> v1 = published ?s ?v0" by blast
      with pv show ?thesis by (auto simp: published_def)
    qed
    show ?thesis
    proof (intro allI impI conjI)
      fix p v assume g: "get_var solver p = Some v"
      show "\<exists>v1. get_var s1 p = Some v1 \<and> (v1 = v \<or> v1 = published solver v)"
      proof (cases "p = p0")
        case True
        with at_p0 g v0 show ?thesis by auto
      next
        case False
        then have "get_var ?s p = Some v" using g by (simp add: get_var_put_var [OF v0])
        with each obtain v1 where "get_var s1 p = Some v1" "v1 = v \<or> v1 = published ?s v" by blast
        then show ?thesis by (auto simp: published_def)
      qed
    next
      fix p v assume g: "get_var solver p = Some v" and d: "on_dirty_list solver p"
      show "\<exists>v1. get_var s1 p = Some v1 \<and> v1 = published solver v"
      proof (cases "p = p0")
        case True
        with at_p0 g v0 show ?thesis by auto
      next
        case False
        then have gs: "get_var ?s p = Some v" using g by (simp add: get_var_put_var [OF v0])
        have "on_dirty_list ?s p"
          using dirty_forward [OF d \<open>sym_id (dirty_vars solver) \<noteq> 0\<close> p0 v0 dn] False by simp
        with dirty gs obtain v1 where "get_var s1 p = Some v1" "v1 = published ?s v" by blast
        then show ?thesis by (auto simp: published_def)
      qed
    next
      fix p v assume g: "get_var solver p = Some v" and d: "\<not> on_dirty_list solver p"
      have "on_dirty_list solver p0"
        using \<open>sym_id (dirty_vars solver) \<noteq> 0\<close> p0 by (auto intro: on_dirty_list.head)
      with d have ne: "p \<noteq> p0" by auto
      then have gs: "get_var ?s p = Some v" using g by (simp add: get_var_put_var [OF v0])
      have "\<not> on_dirty_list ?s p"
        using dirty_backward [OF _ \<open>sym_id (dirty_vars solver) \<noteq> 0\<close> p0 v0 dn] d by blast
      with dirty gs show "get_var s1 p = Some v" by blast
    qed
  qed
qed

lemma updatevars_frame:
  "amcw_updatevars solver = Some s1 \<Longrightarrow>
   s1 = solver\<lparr>dirty_vars := dirty_vars s1, var_mem := var_mem s1\<rparr>"
proof (induction rule: updatevars_induct)
  case (step upd solver s1)
  show ?case
  proof (cases "sym_id (dirty_vars solver) = 0")
    case True
    with step(2) show ?thesis by simp
  next
    case False
    with step(2) obtain s where "upd s = Some s1"
      "s = solver\<lparr>dirty_vars := dirty_vars s, var_mem := var_mem s\<rparr>"
      by (auto simp: put_var_def split: option.splits)
    with step(1) [of s s1] show ?thesis
      by (metis amcw_Solver.surjective amcw_Solver.update_convs(9,10) amcw_Solver.select_convs)
  qed
qed

text \<open>
  When \<^verbatim>\<open>amcw_updatevars\<close> returns, the dirty list is empty; every variable
  that was on the list has its cached value set to the constant of the row keyed by its
  symbol (0 without such a row) and its list link cleared; every other variable is unchanged;
  no field of the solver other than the list head and the variables has changed; and a second
  call returns the same state.
\<close>

theorem updatevars_idempotent:
  assumes "amcw_updatevars solver = Some s1"
  shows "sym_id (dirty_vars s1) = 0
       \<and> (\<forall>p v. on_dirty_list solver p \<longrightarrow> get_var solver p = Some v \<longrightarrow>
             get_var s1 p = Some (published solver v))
       \<and> (\<forall>p v. \<not> on_dirty_list solver p \<longrightarrow> get_var solver p = Some v \<longrightarrow>
             get_var s1 p = Some v)
       \<and> s1 = solver\<lparr>dirty_vars := dirty_vars s1, var_mem := var_mem s1\<rparr>
       \<and> amcw_updatevars s1 = Some s1"
proof -
  have h: "sym_id (dirty_vars s1) = 0" by (rule updatevars_head [OF assms])
  have i: "amcw_updatevars s1 = Some s1" using h by (simp add: amcw_updatevars.simps)
  show ?thesis
    using h i updatevars_dirty [OF assms, THEN conjunct2] updatevars_frame [OF assms]
    by blast
qed

theorem updatevars_idempotent_witness:
  "amcw_updatevars (the ex_added) = Some (the ex_published)
   \<and> on_dirty_list (the ex_added) 1
   \<and> map_option var_value (get_var (the ex_added) 1) = Some 0
   \<and> map_option var_value (get_var (the ex_published) 1) = Some 1
   \<and> amcw_updatevars (the ex_published) = Some (the ex_published)"
proof -
  have run: "amcw_updatevars (the ex_added) = Some (the ex_published)" by code_simp
  have d: "on_dirty_list (the ex_added) 1"
  proof (rule on_dirty_list.head)
    show "sym_id (dirty_vars (the ex_added)) \<noteq> 0" by code_simp
    show "amcw_sym2var (the ex_added) (dirty_vars (the ex_added)) = Some 1" by code_simp
  qed
  have g: "map_option var_value (get_var (the ex_added) 1) = Some 0" by code_simp
  have v: "map_option var_value (get_var (the ex_published) 1) = Some 1" by code_simp
  show ?thesis
    using updatevars_idempotent [OF run] run d g v by simp
qed

text \<open>
  Claim C6: in every solver state \<^verbatim>\<open>amcw_updatevars\<close> gives each dirty variable the
  constant of its row (or 0) and empties the dirty list, and a second call changes nothing.
  The claim fails on a state that the public functions reach. After \<^verbatim>\<open>amcw_add\<close>
  of the required constraint \<open>x = 1\<close>, \<^verbatim>\<open>amcw_delvariable\<close> of \<open>x\<close> and
  \<^verbatim>\<open>amcw_delconstraint\<close> of the constraint, \<open>x\<close> is still the head of the dirty
  list, but \<^verbatim>\<open>amcw_delvariable\<close> has deleted its key from \<open>vars\<close>: the
  \<^verbatim>\<open>assert\<close> of \<^verbatim>\<open>amcw_sym2var\<close> fails and \<^verbatim>\<open>amcw_updatevars\<close> does not
  return, so no value is published and the list is not emptied.
\<close>

theorem updatevars_aborts_after_delete:
  "ex_deleted \<noteq> None
   \<and> dirty_vars (the ex_deleted) = \<lparr>sym_id = 1, sym_type = AMCW_EXTERNAL\<rparr>
   \<and> entries (vars (the ex_deleted)) = []
   \<and> amcw_sym2var (the ex_deleted) (dirty_vars (the ex_deleted)) = None
   \<and> amcw_updatevars (the ex_deleted) = None"
proof -
  have a: "ex_deleted \<noteq> None" by code_simp
  have b: "dirty_vars (the ex_deleted) = \<lparr>sym_id = 1, sym_type = AMCW_EXTERNAL\<rparr>" by code_simp
  have c: "entries (vars (the ex_deleted)) = []" by code_simp
  have d: "amcw_sym2var (the ex_deleted) (dirty_vars (the ex_deleted)) = None" by code_simp
  have e: "amcw_updatevars (the ex_deleted) = None" by code_simp
  show ?thesis using a b c d e by blast
qed

section \<open>Reading a value: \<^verbatim>\<open>amcw_value\<close>\<close>

text \<open>
  Claim C9. \<^verbatim>\<open>amcw_value\<close> returns 0 for the null pointer, and for a pointer to a
  variable of the solver it returns the \<open>var_value\<close> field of that variable, which is the
  field that \<^verbatim>\<open>amcw_updatevars\<close> writes.
\<close>

theorem amcw_value_null_or_cached:
  "amcw_value solver 0 = Some 0
   \<and> (0 < var \<and> var \<le> length (var_mem solver) \<longrightarrow>
        amcw_value solver var = Some (var_value (var_mem solver ! (var - 1))))"
  by (simp add: amcw_value_def get_var_def)

theorem amcw_value_null_or_cached_witness:
  "(0 :: nat) < 1 \<and> 1 \<le> length (var_mem (the ex_published))
   \<and> amcw_value (the ex_published) 0 = Some 0
   \<and> amcw_value (the ex_published) 1 = Some 1"
proof -
  have l: "(0 :: nat) < 1 \<and> 1 \<le> length (var_mem (the ex_published))" by code_simp
  have v: "var_value (var_mem (the ex_published) ! (1 - 1)) = 1" by code_simp
  show ?thesis
    using amcw_value_null_or_cached [of "the ex_published" 1] l v by simp
qed

section \<open>Changing a strength: \<^verbatim>\<open>amcw_setstrength\<close>\<close>

text \<open>
  Claim C10. When the strength of the constraint already equals the normalised new strength
  (\<open>AMCW_REQUIRED\<close> for a strength near zero, the strength itself otherwise),
  \<^verbatim>\<open>amcw_setstrength\<close> returns \<open>AMCW_OK\<close> and the solver is unchanged.
\<close>

theorem setstrength_same_strength_noop:
  assumes "get_cons solver cons = Some c"
    and "strength c = (if amcw_nearzero st then AMCW_REQUIRED else st)"
  shows "amcw_setstrength solver cons st = Some (AMCW_OK, solver)"
proof -
  have "cons \<noteq> 0" using assms(1) by (auto simp: get_cons_def split: if_splits)
  then show ?thesis using assms by (simp add: amcw_setstrength_def)
qed

theorem setstrength_same_strength_noop_witness:
  "get_cons (the ex_added) 1 \<noteq> None
   \<and> strength (the (get_cons (the ex_added) 1)) = AMCW_REQUIRED
   \<and> amcw_nearzero 0
   \<and> amcw_setstrength (the ex_added) 1 0 = Some (AMCW_OK, the ex_added)
   \<and> \<not> amcw_nearzero AMCW_REQUIRED
   \<and> amcw_setstrength (the ex_added) 1 AMCW_REQUIRED = Some (AMCW_OK, the ex_added)"
proof -
  have g: "get_cons (the ex_added) 1 \<noteq> None" by code_simp
  then have g1: "get_cons (the ex_added) 1 = Some (the (get_cons (the ex_added) 1))" by simp
  have s: "strength (the (get_cons (the ex_added) 1)) = AMCW_REQUIRED" by code_simp
  have n0: "amcw_nearzero 0" by code_simp
  have n1: "\<not> amcw_nearzero AMCW_REQUIRED" by code_simp
  show ?thesis
    using setstrength_same_strength_noop [OF g1, of 0]
      setstrength_same_strength_noop [OF g1, of AMCW_REQUIRED] g s n0 n1
    by simp
qed

section \<open>Contents of a table\<close>

lemma live_mset_append [simp]: "live_mset (xs @ ys) = live_mset xs + live_mset ys"
  by (simp add: live_mset_def)

lemma live_mset_Cons [simp]:
  "live_mset (x # xs) = (if live x then add_mset (kp x) (live_mset xs) else live_mset xs)"
  by (simp add: live_mset_def)

lemma live_mset_Nil [simp]: "live_mset [] = {#}"
  by (simp add: live_mset_def)

lemma live_mset_update:
  "i < length h \<Longrightarrow>
   live_mset (h[i := x]) + (if live (h ! i) then {#kp (h ! i)#} else {#})
     = live_mset h + (if live x then {#kp x#} else {#})"
proof -
  assume i: "i < length h"
  have a: "h[i := x] = take i h @ x # drop (Suc i) h" using i by (rule upd_conv_take_nth_drop)
  have b: "live_mset h = live_mset (take i h @ h ! i # drop (Suc i) h)"
    using i by (simp add: id_take_nth_drop [symmetric])
  show ?thesis unfolding a b by simp
qed

lemma live_mset_upd_same:
  "live x = live (h ! i) \<Longrightarrow> kp x = kp (h ! i) \<Longrightarrow> live_mset (h[i := x]) = live_mset h"
  by (cases "i < length h") (use live_mset_update [of i h x] in \<open>auto simp: list_update_beyond\<close>)




lemma live_mset_upd_live_live:
  "i < length h \<Longrightarrow> live (h ! i) \<Longrightarrow> live x \<Longrightarrow>
   add_mset (kp (h ! i)) (live_mset (h[i := x])) = add_mset (kp x) (live_mset h)"
  using live_mset_update [of i h x] by auto

lemma live_mset_replicate_zero [simp]: "live_mset (replicate n (zero_entry z)) = {#}"
  by (induction n) (simp_all add: live_def zero_entry_def amcw_null_def)




lemma freescan_lf: "freescan h l = Some (lf, r) \<Longrightarrow> lf \<le> l"
  by (induction h l rule: freescan.induct) (auto split: if_splits)





lemma kp_simps [simp]:
  "kp (e\<lparr>e_next := n\<rparr>) = kp e"
  "kp (e\<lparr>key := k\<rparr>) = (k, payload e)"
  "kp (e\<lparr>payload := p\<rparr>) = (key e, p)"
  by (simp_all add: kp_def)

lemma amcw_null_simps [simp]: "sym_id amcw_null = 0" "sym_type amcw_null = 0"
  by (simp_all add: amcw_null_def)

lemma live_simps [simp]:
  "live (e\<lparr>e_next := n\<rparr>) = live e"
  "live (e\<lparr>payload := p\<rparr>) = live e"
  "live (e\<lparr>key := k\<rparr>) = (sym_id k \<noteq> 0)"
  by (simp_all add: live_def)













lemma getloop_Some:
  "getloop n h k e0 = Some (Some e) \<Longrightarrow> e < length h \<and> sym_id (key (h ! e)) = sym_id k"
  by (induction n h k e0 rule: getloop.induct) (auto simp: Let_def split: if_splits)

lemma gettable_Some:
  "amcw_gettable t k = Some (Some e) \<Longrightarrow>
   e < length (hash t) \<and> sym_id (key (hash t ! e)) = sym_id k \<and> sym_id k \<noteq> 0 \<and> live (hash t ! e)"
  by (auto simp: amcw_gettable_def live_def split: if_splits dest: getloop_Some)














lemma row_field_simps [simp]:
  "payload (set_terms row t) = (payload row)\<lparr>terms := t\<rparr>"
  "key (set_terms row t) = key row"
  "e_next (set_terms row t) = e_next row"
  "payload (set_constant row c) = (payload row)\<lparr>row_constant := c\<rparr>"
  "key (set_constant row c) = key row"
  "e_next (set_constant row c) = e_next row"
  by (simp_all add: set_terms_def set_constant_def)

lemma row_ok_set_constant [simp]: "row_ok (set_constant row c) = row_ok row"
  by (simp add: row_ok_def)

















section \<open>Row normalisation\<close>




section \<open>Pivot selection in \<^verbatim>\<open>amcw_optimize\<close>\<close>









section \<open>Suggesting a value: \<^verbatim>\<open>amcw_suggest\<close>\<close>

lemma getloop_same_keys:
  assumes len: "length h' = length h"
    and eq: "\<And>i. i < length h \<Longrightarrow> key (h' ! i) = key (h ! i) \<and> e_next (h' ! i) = e_next (h ! i)"
  shows "getloop n h' k e = getloop n h k e"
proof (induction n arbitrary: e)
  case 0
  show ?case by simp
next
  case (Suc n)
  show ?case
  proof (cases "e < length h")
    case True
    from eq [OF True] have "key (h' ! e) = key (h ! e)" "e_next (h' ! e) = e_next (h ! e)"
      by simp_all
    then show ?thesis using True len Suc.IH by (simp add: Let_def)
  next
    case False
    then show ?thesis using len by simp
  qed
qed

lemma gettable_same_keys:
  assumes "map key (hash t') = map key (hash t)" "map e_next (hash t') = map e_next (hash t)"
  shows "amcw_gettable t' k = amcw_gettable t k"
proof -
  have l: "length (hash t') = length (hash t)" using assms(1) by (rule map_eq_imp_length_eq)
  have "\<forall>i < length (hash t). key (hash t' ! i) = key (hash t ! i) \<and> e_next (hash t' ! i) = e_next (hash t ! i)"
  proof (intro allI impI)
    fix i assume i: "i < length (hash t)"
    have "map key (hash t') ! i = map key (hash t) ! i" "map e_next (hash t') ! i = map e_next (hash t) ! i"
      using assms by simp_all
    then show "key (hash t' ! i) = key (hash t ! i) \<and> e_next (hash t' ! i) = e_next (hash t ! i)"
      using i l by simp
  qed
  then have "getloop n (hash t') k e = getloop n (hash t) k e" for n e
    using l by (intro getloop_same_keys) simp_all
  then show ?thesis
    using l by (simp add: amcw_gettable_def amcw_mainposition_def)
qed

lemma getloop_id: "sym_id k' = sym_id k \<Longrightarrow> getloop n h k' e = getloop n h k e"
  by (induction n h k e rule: getloop.induct) (auto simp: Let_def)

lemma gettable_id:
  assumes "sym_id k' = sym_id k"
  shows "amcw_gettable t k' = amcw_gettable t k"
proof -
  have "getloop (length (hash t)) (hash t) k' (amcw_mainposition t k)
          = getloop (length (hash t)) (hash t) k (amcw_mainposition t k)"
    using assms by (rule getloop_id)
  moreover have "amcw_mainposition t k' = amcw_mainposition t k"
    using assms by (simp add: amcw_mainposition_def)
  ultimately show ?thesis using assms by (simp add: amcw_gettable_def)
qed

lemma sym2var_id: "sym_id k' = sym_id k \<Longrightarrow> amcw_sym2var s k' = amcw_sym2var s k"
  by (simp add: amcw_sym2var_def gettable_id [of k' k])


lemma inf_list_mono:
  assumes "on_infeasible_list s i"
    and E: "\<And>i0. sym_id (infeasible_rows s) \<noteq> 0
              \<Longrightarrow> amcw_gettable (rows s) (infeasible_rows s) = Some (Some i0)
              \<Longrightarrow> on_infeasible_list s' i0"
    and g: "\<And>k. amcw_gettable (rows s') k = amcw_gettable (rows s) k"
    and n: "\<And>i. on_infeasible_list s i \<Longrightarrow>
              infeasible_next (payload (hash (rows s') ! i)) = infeasible_next (payload (hash (rows s) ! i))"
  shows "on_infeasible_list s' i"
  using assms(1)
proof (induction rule: on_infeasible_list.induct)
  case (head i)
  then show ?case by (rule E)
next
  case (link i j)
  show ?case
  proof (rule on_infeasible_list.link [OF link.IH])
    show "sym_id (infeasible_next (payload (hash (rows s') ! i))) \<noteq> 0"
      using link.hyps(2) n [OF link.hyps(1)] by simp
    show "amcw_gettable (rows s') (infeasible_next (payload (hash (rows s') ! i))) = Some (Some j)"
      using link.hyps(3) n [OF link.hyps(1)] g by simp
  qed
qed

lemma inf_list_back:
  assumes "on_infeasible_list s' i"
    and H: "\<And>i0. sym_id (infeasible_rows s') \<noteq> 0
              \<Longrightarrow> amcw_gettable (rows s') (infeasible_rows s') = Some (Some i0) \<Longrightarrow> i0 = j"
    and g: "\<And>k. amcw_gettable (rows s') k = amcw_gettable (rows s) k"
    and nj: "sym_id (infeasible_next (payload (hash (rows s') ! j))) = sym_id (infeasible_rows s)"
    and n: "\<And>i. i \<noteq> j \<Longrightarrow>
              infeasible_next (payload (hash (rows s') ! i)) = infeasible_next (payload (hash (rows s) ! i))"
  shows "i = j \<or> on_infeasible_list s i"
  using assms(1)
proof (induction rule: on_infeasible_list.induct)
  case (head i)
  then show ?case using H by blast
next
  case (link i k)
  show ?case
  proof (cases "i = j")
    case True
    have a: "sym_id (infeasible_rows s) \<noteq> 0" using link.hyps(2) nj True by simp
    have "amcw_gettable (rows s) (infeasible_rows s)
            = amcw_gettable (rows s) (infeasible_next (payload (hash (rows s') ! i)))"
      using nj True by (intro gettable_id) simp
    then have "amcw_gettable (rows s) (infeasible_rows s) = Some (Some k)"
      using link.hyps(3) g by simp
    with a have "on_infeasible_list s k" by (rule on_infeasible_list.head)
    then show ?thesis ..
  next
    case False
    with link.IH have l: "on_infeasible_list s i" by simp
    have "on_infeasible_list s k"
    proof (rule on_infeasible_list.link [OF l])
      show "sym_id (infeasible_next (payload (hash (rows s) ! i))) \<noteq> 0"
        using link.hyps(2) n [OF False] by simp
      show "amcw_gettable (rows s) (infeasible_next (payload (hash (rows s) ! i))) = Some (Some k)"
        using link.hyps(3) n [OF False] g by simp
    qed
    then show ?thesis ..
  qed
qed

lemma dirty_list_mono:
  assumes "on_dirty_list s p"
    and E: "\<And>p0. sym_id (dirty_vars s) \<noteq> 0 \<Longrightarrow> amcw_sym2var s (dirty_vars s) = Some p0
              \<Longrightarrow> on_dirty_list s' p0"
    and g: "\<And>k. amcw_sym2var s' k = amcw_sym2var s k"
    and n: "\<And>q v. on_dirty_list s q \<Longrightarrow> get_var s q = Some v \<Longrightarrow>
              \<exists>v'. get_var s' q = Some v' \<and> dirty_next v' = dirty_next v"
  shows "on_dirty_list s' p"
  using assms(1)
proof (induction rule: on_dirty_list.induct)
  case (head p)
  then show ?case by (rule E)
next
  case (link q v p)
  from n [OF link.hyps(1,2)] obtain v' where v': "get_var s' q = Some v'" "dirty_next v' = dirty_next v"
    by blast
  show ?case
  proof (rule on_dirty_list.link [OF link.IH v'(1)])
    show "sym_id (dirty_next v') \<noteq> 0" using link.hyps(3) v'(2) by simp
    show "amcw_sym2var s' (dirty_next v') = Some p" using link.hyps(4) v'(2) g by simp
  qed
qed

lemma dirty_list_back:
  assumes "on_dirty_list s' p"
    and H: "\<And>p0. sym_id (dirty_vars s') \<noteq> 0 \<Longrightarrow> amcw_sym2var s' (dirty_vars s') = Some p0 \<Longrightarrow> p0 = q0"
    and g: "\<And>k. amcw_sym2var s' k = amcw_sym2var s k"
    and nj: "\<And>v'. get_var s' q0 = Some v' \<Longrightarrow> sym_id (dirty_next v') = sym_id (dirty_vars s)"
    and n: "\<And>q. q \<noteq> q0 \<Longrightarrow> get_var s' q = get_var s q"
  shows "p = q0 \<or> on_dirty_list s p"
  using assms(1)
proof (induction rule: on_dirty_list.induct)
  case (head p)
  then show ?case using H by blast
next
  case (link q v p)
  show ?case
  proof (cases "q = q0")
    case True
    have i: "sym_id (dirty_next v) = sym_id (dirty_vars s)" using nj link.hyps(2) True by simp
    then have a: "sym_id (dirty_vars s) \<noteq> 0" using link.hyps(3) by simp
    have "amcw_sym2var s (dirty_vars s) = amcw_sym2var s (dirty_next v)"
      using i by (intro sym2var_id) simp
    then have "amcw_sym2var s (dirty_vars s) = Some p" using link.hyps(4) g by simp
    with a have "on_dirty_list s p" by (rule on_dirty_list.head)
    then show ?thesis ..
  next
    case False
    with link.IH have l: "on_dirty_list s q" by simp
    have "get_var s q = Some v" using link.hyps(2) n [OF False] by simp
    then have "on_dirty_list s p"
      using l link.hyps(3,4) g by (auto intro: on_dirty_list.link)
    then show ?thesis ..
  qed
qed


lemma sym2var_vars: "vars s' = vars s \<Longrightarrow> amcw_sym2var s' k = amcw_sym2var s k"
  by (simp add: amcw_sym2var_def cong: option.case_cong)

lemma map_eq_nth:
  assumes "map f xs = map f ys" "i < length ys"
  shows "f (xs ! i) = f (ys ! i)"
proof -
  have l: "length xs = length ys" using assms(1) by (rule map_eq_imp_length_eq)
  have "map f xs ! i = map f ys ! i" using assms(1) by simp
  then show ?thesis using assms(2) l by simp
qed

lemma on_infeasible_list_slot:
  "on_infeasible_list s i \<Longrightarrow> i < length (hash (rows s)) \<and> live (hash (rows s) ! i)"
  by (induction rule: on_infeasible_list.induct) (auto dest: gettable_Some)

lemma on_dirty_list_cong:
  assumes "on_dirty_list s p" "vars s' = vars s" "var_mem s' = var_mem s" "dirty_vars s' = dirty_vars s"
  shows "on_dirty_list s' p"
proof (rule dirty_list_mono [OF assms(1)])
  show "amcw_sym2var s' k = amcw_sym2var s k" for k using assms(2) by (rule sym2var_vars)
  then show "on_dirty_list s' p0"
    if "sym_id (dirty_vars s) \<noteq> 0" "amcw_sym2var s (dirty_vars s) = Some p0" for p0
    using that assms(4) by (auto intro: on_dirty_list.head)
  show "\<exists>v'. get_var s' q = Some v' \<and> dirty_next v' = dirty_next v"
    if "get_var s q = Some v" for q v
  proof -
    have "get_var s' q = get_var s q" using assms(3) by (simp add: get_var_def)
    then show ?thesis using that by simp
  qed
qed

lemma on_infeasible_list_cong:
  assumes "on_infeasible_list s i"
    and k: "map key (hash (rows s')) = map key (hash (rows s))"
    and e: "map e_next (hash (rows s')) = map e_next (hash (rows s))"
    and l: "map (\<lambda>r. infeasible_next (payload r)) (hash (rows s'))
              = map (\<lambda>r. infeasible_next (payload r)) (hash (rows s))"
    and h: "infeasible_rows s' = infeasible_rows s"
  shows "on_infeasible_list s' i"
proof (rule inf_list_mono [OF assms(1)])
  show g: "amcw_gettable (rows s') k = amcw_gettable (rows s) k" for k
    using k e by (rule gettable_same_keys)
  show "on_infeasible_list s' i0"
    if "sym_id (infeasible_rows s) \<noteq> 0" "amcw_gettable (rows s) (infeasible_rows s) = Some (Some i0)" for i0
    using that h g by (auto intro: on_infeasible_list.head)
  show "infeasible_next (payload (hash (rows s') ! i)) = infeasible_next (payload (hash (rows s) ! i))"
    if "on_infeasible_list s i" for i
    using map_eq_nth [OF l] on_infeasible_list_slot [OF that] by simp
qed

lemma vars_indexed_sym2var:
  assumes "vars_indexed s" "amcw_sym2var s k = Some p"
  shows "\<exists>v. get_var s p = Some v \<and> amcw_sym2var s (sym v) = Some p"
proof -
  from assms(2) obtain e where e: "amcw_gettable (vars s) k = Some (Some e)"
    and p: "p = payload (hash (vars s) ! e)"
    by (auto simp: amcw_sym2var_def split: option.splits)
  from gettable_Some [OF e] assms(1) show ?thesis
    unfolding p vars_indexed_def by (auto split: option.splits)
qed

lemma lists_ok_transfer:
  assumes ok: "lists_ok s"
    and k: "map key (hash (rows s')) = map key (hash (rows s))"
    and e: "map e_next (hash (rows s')) = map e_next (hash (rows s))"
    and l: "map (\<lambda>r. infeasible_next (payload r)) (hash (rows s'))
              = map (\<lambda>r. infeasible_next (payload r)) (hash (rows s))"
    and h: "infeasible_rows s' = infeasible_rows s"
    and v: "vars s' = vars s" "var_mem s' = var_mem s" "dirty_vars s' = dirty_vars s"
  shows "lists_ok s'"
    and "on_infeasible_list s' i = on_infeasible_list s i"
    and "on_dirty_list s' p = on_dirty_list s p"
proof -
  have len: "length (hash (rows s')) = length (hash (rows s))" using k by (rule map_eq_imp_length_eq)
  have g: "amcw_gettable (rows s') k = amcw_gettable (rows s) k" for k
    using k e by (rule gettable_same_keys)
  have key: "key (hash (rows s') ! j) = key (hash (rows s) ! j)" if "j < length (hash (rows s))" for j
    using map_eq_nth [OF k that] .
  have lnk: "infeasible_next (payload (hash (rows s') ! j)) = infeasible_next (payload (hash (rows s) ! j))"
    if "j < length (hash (rows s))" for j
    using map_eq_nth [OF l that] .
  show il: "on_infeasible_list s' i = on_infeasible_list s i" for i
    using on_infeasible_list_cong [of s i s'] on_infeasible_list_cong [of s' i s] k e l h by auto
  show dl: "on_dirty_list s' p = on_dirty_list s p" for p
    using on_dirty_list_cong [of s p s'] on_dirty_list_cong [of s' p s] v by auto
  have sv: "amcw_sym2var s' k = amcw_sym2var s k" for k using v(1) by (rule sym2var_vars)
  have gv: "get_var s' p = get_var s p" for p using v(2) by (simp add: get_var_def)
  have r: "rows_indexed s'"
    using ok len g key unfolding lists_ok_def rows_indexed_def live_def by simp
  have vi: "vars_indexed s'"
    using ok v(1) sv gv unfolding lists_ok_def vars_indexed_def by (simp cong: option.case_cong)
  have io: "inf_list_ok s'"
    using ok il len key lnk on_infeasible_list_slot
    unfolding lists_ok_def inf_list_ok_def live_def inf_tagged_def by metis
  have d: "dirty_list_ok s'"
    using ok dl gv unfolding lists_ok_def dirty_list_ok_def by simp
  show "lists_ok s'" using r vi io d by (simp add: lists_ok_def)
qed


lemma map_update_same: "f r = f (h ! i) \<Longrightarrow> map f (h[i := r]) = map f h"
  by (cases "i < length h") (auto simp: nth_list_update intro!: nth_equalityI)

lemma rows_frame_refl [simp]: "rows_frame s s"
  by (simp add: rows_frame_def)

lemma rows_frame_trans: "rows_frame s s1 \<Longrightarrow> rows_frame s1 s2 \<Longrightarrow> rows_frame s s2"
  by (simp add: rows_frame_def)

lemma set_constant_lists:
  assumes ok: "lists_ok s" and s': "s' = set_row s i (set_constant (hash (rows s) ! i) c)"
  shows "lists_ok s'" and "rows_frame s s'"
    and "on_infeasible_list s' j = on_infeasible_list s j"
    and "on_dirty_list s' p = on_dirty_list s p"
proof -
  have k: "map key (hash (rows s')) = map key (hash (rows s))"
    unfolding s' by (simp add: set_row_def set_constant_def map_update_same)
  have e: "map e_next (hash (rows s')) = map e_next (hash (rows s))"
    unfolding s' by (simp add: set_row_def set_constant_def map_update_same)
  have l: "map (\<lambda>r. infeasible_next (payload r)) (hash (rows s'))
             = map (\<lambda>r. infeasible_next (payload r)) (hash (rows s))"
    unfolding s' by (simp add: set_row_def set_constant_def map_update_same)
  have t: "map (\<lambda>r. terms (payload r)) (hash (rows s')) = map (\<lambda>r. terms (payload r)) (hash (rows s))"
    unfolding s' by (simp add: set_row_def set_constant_def map_update_same)
  have o: "infeasible_rows s' = infeasible_rows s" "vars s' = vars s" "var_mem s' = var_mem s"
    "dirty_vars s' = dirty_vars s"
    unfolding s' by (simp_all add: set_row_def)
  note tr = lists_ok_transfer [OF ok k e l o]
  show "lists_ok s'" by (rule tr(1))
  show "on_infeasible_list s' j = on_infeasible_list s j" by (rule tr(2))
  show "on_dirty_list s' p = on_dirty_list s p" by (rule tr(3))
  show "rows_frame s s'"
    using k e t o tr(2,3) by (simp add: rows_frame_def)
qed

lemma infeasible_lists:
  assumes i: "i < length (hash (rows s))" "live (hash (rows s) ! i)"
    and ok: "lists_ok s" and s': "s' = amcw_infeasible s i"
  shows "lists_ok s' \<and> rows_frame s s'
       \<and> row_constant (payload (hash (rows s') ! i)) = row_constant (payload (hash (rows s) ! i))
       \<and> (row_constant (payload (hash (rows s) ! i)) < 0 \<longrightarrow> on_infeasible_list s' i)
       \<and> (\<forall>j. j \<noteq> i \<longrightarrow> hash (rows s') ! j = hash (rows s) ! j)
       \<and> var_mem s' = var_mem s \<and> dirty_vars s' = dirty_vars s"
proof (cases "row_constant (payload (hash (rows s) ! i)) < 0 \<and> \<not> inf_tagged (hash (rows s) ! i)")
  case False
  then have e: "s' = s" unfolding s' by (auto simp: amcw_infeasible_def Let_def inf_tagged_def)
  have "on_infeasible_list s i" if "row_constant (payload (hash (rows s) ! i)) < 0"
    using that False i ok by (auto simp: lists_ok_def inf_list_ok_def)
  then show ?thesis using ok unfolding e by simp
next
  case True
  let ?row = "hash (rows s) ! i"
  let ?lk = "\<lparr>sym_id = sym_id (infeasible_rows s), sym_type = AMCW_DUMMY\<rparr>"
  let ?row' = "?row\<lparr>payload := (payload ?row)\<lparr>infeasible_next := ?lk\<rparr>\<rparr>"
  have e: "s' = (set_row s i ?row')\<lparr>infeasible_rows := key ?row\<rparr>"
    using True unfolding s' by (simp add: amcw_infeasible_def Let_def inf_tagged_def)
  have ri: "rows_indexed s" and vi: "vars_indexed s" and io: "inf_list_ok s" and dk: "dirty_list_ok s"
    using ok by (simp_all add: lists_ok_def)
  have untag: "\<not> inf_tagged ?row" using True by simp
  have hs: "hash (rows s') = (hash (rows s))[i := ?row']" unfolding e by (simp add: set_row_def)
  have at_i: "hash (rows s') ! i = ?row'" unfolding hs using i(1) by simp
  have other: "hash (rows s') ! j = hash (rows s) ! j" if "j \<noteq> i" for j
    unfolding hs using that by simp
  have len: "length (hash (rows s')) = length (hash (rows s))" unfolding hs by simp
  have k: "map key (hash (rows s')) = map key (hash (rows s))"
    unfolding hs by (simp add: map_update_same)
  have en: "map e_next (hash (rows s')) = map e_next (hash (rows s))"
    unfolding hs by (simp add: map_update_same)
  have t: "map (\<lambda>r. terms (payload r)) (hash (rows s')) = map (\<lambda>r. terms (payload r)) (hash (rows s))"
    unfolding hs by (simp add: map_update_same)
  have o: "infeasible_rows s' = key ?row" "vars s' = vars s" "var_mem s' = var_mem s"
    "dirty_vars s' = dirty_vars s"
    unfolding e by (simp_all add: set_row_def)
  have g: "amcw_gettable (rows s') k = amcw_gettable (rows s) k" for k
    using k en by (rule gettable_same_keys)
  have kid: "sym_id (key ?row) \<noteq> 0" using i(2) by (simp add: live_def)
  have find_i: "amcw_gettable (rows s') (infeasible_rows s') = Some (Some i)"
    using ri i g o(1) by (simp add: rows_indexed_def)
  have on_i: "on_infeasible_list s' i"
    using kid find_i o(1) by (auto intro: on_infeasible_list.head)
  have notlisted: "i' \<noteq> i" if "on_infeasible_list s i'" for i'
    using that io untag by (auto simp: inf_list_ok_def)
  have mono: "on_infeasible_list s' i'" if l: "on_infeasible_list s i'" for i'
  proof (rule inf_list_mono [OF l])
    show "amcw_gettable (rows s') k = amcw_gettable (rows s) k" for k by (rule g)
    show "infeasible_next (payload (hash (rows s') ! j)) = infeasible_next (payload (hash (rows s) ! j))"
      if "on_infeasible_list s j" for j
      using other [OF notlisted [OF that]] by simp
    show "on_infeasible_list s' i0"
      if h: "sym_id (infeasible_rows s) \<noteq> 0" "amcw_gettable (rows s) (infeasible_rows s) = Some (Some i0)"
      for i0
    proof (rule on_infeasible_list.link [OF on_i])
      show "sym_id (infeasible_next (payload (hash (rows s') ! i))) \<noteq> 0"
        unfolding at_i using h(1) by simp
      have "amcw_gettable (rows s) ?lk = amcw_gettable (rows s) (infeasible_rows s)"
        by (rule gettable_id) simp
      then show "amcw_gettable (rows s') (infeasible_next (payload (hash (rows s') ! i))) = Some (Some i0)"
        unfolding at_i using h(2) g by simp
    qed
  qed
  have bk: "i' = i \<or> on_infeasible_list s i'" if l: "on_infeasible_list s' i'" for i'
  proof (rule inf_list_back [OF l])
    show "i0 = i" if "amcw_gettable (rows s') (infeasible_rows s') = Some (Some i0)" for i0
      using that find_i by simp
    show "amcw_gettable (rows s') k = amcw_gettable (rows s) k" for k by (rule g)
    show "sym_id (infeasible_next (payload (hash (rows s') ! i))) = sym_id (infeasible_rows s)"
      unfolding at_i by simp
    show "infeasible_next (payload (hash (rows s') ! j)) = infeasible_next (payload (hash (rows s) ! j))"
      if "j \<noteq> i" for j
      using other [OF that] by simp
  qed
  have tag_i: "inf_tagged (hash (rows s') ! i)"
    unfolding at_i by (simp add: inf_tagged_def amcw_isdummy_def)
  have io': "inf_list_ok s'"
    unfolding inf_list_ok_def
  proof (intro conjI allI impI)
    fix i' assume "on_infeasible_list s' i'"
    from bk [OF this] show "inf_tagged (hash (rows s') ! i')"
    proof
      assume "i' = i"
      then show ?thesis using tag_i by simp
    next
      assume l: "on_infeasible_list s i'"
      then have "inf_tagged (hash (rows s) ! i')" using io by (simp add: inf_list_ok_def)
      then show ?thesis using other [OF notlisted [OF l]] by simp
    qed
  next
    fix j assume j: "j < length (hash (rows s'))" "live (hash (rows s') ! j)" "inf_tagged (hash (rows s') ! j)"
    show "on_infeasible_list s' j"
    proof (cases "j = i")
      case True
      then show ?thesis using on_i by simp
    next
      case False
      then have "on_infeasible_list s j"
        using j io len other [OF False] by (simp add: inf_list_ok_def)
      then show ?thesis by (rule mono)
    qed
  qed
  have keyeq: "key (hash (rows s') ! j) = key (hash (rows s) ! j)" if "j < length (hash (rows s))" for j
    using map_eq_nth [OF k that] .
  have ri': "rows_indexed s'"
    using ri len g keyeq unfolding rows_indexed_def live_def by simp
  have dl: "on_dirty_list s' p = on_dirty_list s p" for p
    using on_dirty_list_cong [of s p s'] on_dirty_list_cong [of s' p s] o by auto
  have sv: "amcw_sym2var s' k = amcw_sym2var s k" for k using o(2) by (rule sym2var_vars)
  have gv: "get_var s' p = get_var s p" for p using o(3) by (simp add: get_var_def)
  have vi': "vars_indexed s'"
    using vi o(2) sv gv unfolding vars_indexed_def by (simp cong: option.case_cong)
  have dk': "dirty_list_ok s'"
    using dk dl gv unfolding dirty_list_ok_def by simp
  have ok': "lists_ok s'" using ri' vi' io' dk' by (simp add: lists_ok_def)
  have fr: "rows_frame s s'"
    using k en t o mono dl by (simp add: rows_frame_def)
  have c: "row_constant (payload (hash (rows s') ! i)) = row_constant (payload (hash (rows s) ! i))"
    unfolding at_i by simp
  show ?thesis using ok' fr c on_i other o by simp
qed


lemma markdirty_lists:
  assumes sv: "amcw_sym2var s k = Some p" and ok: "lists_ok s"
  shows "\<exists>s'. amcw_markdirty s p = Some s' \<and> lists_ok s' \<and> rows_frame s s'
           \<and> rows s' = rows s \<and> infeasible_rows s' = infeasible_rows s \<and> on_dirty_list s' p"
proof -
  have ri: "rows_indexed s" and vi: "vars_indexed s" and io: "inf_list_ok s" and dk: "dirty_list_ok s"
    using ok by (simp_all add: lists_ok_def)
  from vars_indexed_sym2var [OF vi sv] obtain v where
    v: "get_var s p = Some v" and svv: "amcw_sym2var s (sym v) = Some p" by blast
  show ?thesis
  proof (cases "is_dirty v")
    case True
    then have "amcw_markdirty s p = Some s" using v by (simp add: amcw_markdirty_def is_dirty_def)
    moreover have "on_dirty_list s p" using True v dk by (auto simp: dirty_list_ok_def)
    ultimately show ?thesis using ok by simp
  next
    case False
    let ?lk = "\<lparr>sym_id = sym_id (dirty_vars s), sym_type = AMCW_DUMMY\<rparr>"
    let ?v' = "v\<lparr>dirty_next := ?lk\<rparr>"
    let ?s' = "(put_var s p ?v')\<lparr>dirty_vars := sym v\<rparr>"
    have md: "amcw_markdirty s p = Some ?s'"
      using False v by (simp add: amcw_markdirty_def is_dirty_def)
    have gv: "get_var ?s' q = (if q = p then Some ?v' else get_var s q)" for q
      using v by (rule get_var_put_var)
    have g: "amcw_sym2var ?s' k = amcw_sym2var s k" for k by simp
    have o: "rows ?s' = rows s" "infeasible_rows ?s' = infeasible_rows s" "vars ?s' = vars s"
      "dirty_vars ?s' = sym v"
      by (simp_all add: put_var_def)
    have sid: "sym_id (sym v) \<noteq> 0"
      using svv by (auto simp: amcw_sym2var_def split: option.splits dest: gettable_Some)
    have on_p: "on_dirty_list ?s' p"
    proof (rule on_dirty_list.head)
      show "sym_id (dirty_vars ?s') \<noteq> 0" using sid by simp
      show "amcw_sym2var ?s' (dirty_vars ?s') = Some p" using svv g by simp
    qed
    have notlisted: "q \<noteq> p" if "on_dirty_list s q" for q
      using that dk v False by (auto simp: dirty_list_ok_def)
    have mono: "on_dirty_list ?s' q" if l: "on_dirty_list s q" for q
    proof (rule dirty_list_mono [OF l])
      show "amcw_sym2var ?s' k = amcw_sym2var s k" for k by (rule g)
      show "\<exists>v'. get_var ?s' q = Some v' \<and> dirty_next v' = dirty_next w"
        if "on_dirty_list s q" "get_var s q = Some w" for q w
        using that notlisted gv by simp
      show "on_dirty_list ?s' p0"
        if h: "sym_id (dirty_vars s) \<noteq> 0" "amcw_sym2var s (dirty_vars s) = Some p0" for p0
      proof (rule on_dirty_list.link [OF on_p])
        show "get_var ?s' p = Some ?v'" using gv by simp
        show "sym_id (dirty_next ?v') \<noteq> 0" using h(1) by simp
        have "amcw_sym2var s (dirty_next ?v') = amcw_sym2var s (dirty_vars s)"
          by (rule sym2var_id) simp
        then show "amcw_sym2var ?s' (dirty_next ?v') = Some p0" using h(2) g by simp
      qed
    qed
    have bk: "q = p \<or> on_dirty_list s q" if l: "on_dirty_list ?s' q" for q
    proof (rule dirty_list_back [OF l])
      show "p0 = p" if "amcw_sym2var ?s' (dirty_vars ?s') = Some p0" for p0
        using that svv g o(4) by simp
      show "amcw_sym2var ?s' k = amcw_sym2var s k" for k by (rule g)
      show "sym_id (dirty_next v') = sym_id (dirty_vars s)" if "get_var ?s' p = Some v'" for v'
        using that gv by auto
      show "get_var ?s' q = get_var s q" if "q \<noteq> p" for q using that gv by simp
    qed
    have dk': "dirty_list_ok ?s'"
      unfolding dirty_list_ok_def
    proof (intro conjI allI impI)
      fix q assume "on_dirty_list ?s' q"
      from bk [OF this] show "\<exists>w. get_var ?s' q = Some w \<and> is_dirty w"
      proof
        assume "q = p"
        then show ?thesis using gv by (simp add: is_dirty_def)
      next
        assume l: "on_dirty_list s q"
        then obtain w where "get_var s q = Some w" "is_dirty w" using dk by (auto simp: dirty_list_ok_def)
        then show ?thesis using gv notlisted [OF l] by simp
      qed
    next
      fix q w assume q: "get_var ?s' q = Some w" "is_dirty w"
      show "on_dirty_list ?s' q"
      proof (cases "q = p")
        case True
        then show ?thesis using on_p by simp
      next
        case False
        then have "on_dirty_list s q" using q gv dk by (auto simp: dirty_list_ok_def)
        then show ?thesis by (rule mono)
      qed
    qed
    have il: "on_infeasible_list ?s' i = on_infeasible_list s i" for i
      using on_infeasible_list_cong [of s i ?s'] on_infeasible_list_cong [of ?s' i s] o by auto
    have ri': "rows_indexed ?s'" using ri o(1) by (simp add: rows_indexed_def)
    have io': "inf_list_ok ?s'" using io il o(1) by (simp add: inf_list_ok_def)
    have vi': "vars_indexed ?s'"
      unfolding vars_indexed_def
    proof (intro allI impI)
      fix e assume e: "e < length (hash (vars ?s'))" "live (hash (vars ?s') ! e)"
      let ?q = "payload (hash (vars s) ! e)"
      from e vi o(3) obtain w where w: "get_var s ?q = Some w" "amcw_sym2var s (sym w) = Some ?q"
        by (auto simp: vars_indexed_def split: option.splits)
      show "case get_var ?s' (payload (hash (vars ?s') ! e)) of None \<Rightarrow> False
            | Some v \<Rightarrow> amcw_sym2var ?s' (sym v) = Some (payload (hash (vars ?s') ! e))"
      proof (cases "?q = p")
        case True
        then show ?thesis using gv g svv o(3) by simp
      next
        case False
        then show ?thesis using gv g w o(3) by simp
      qed
    qed
    have ok': "lists_ok ?s'" using ri' vi' io' dk' by (simp add: lists_ok_def)
    have p: "p \<noteq> 0" "p \<le> length (var_mem s)" "var_mem s ! (p - 1) = v"
      using v by (auto simp: get_var_def split: if_splits)
    have sm: "map sym (var_mem ?s') = map sym (var_mem s)"
      using p by (simp add: put_var_def map_update_same)
    have fr: "rows_frame s ?s'"
      using o sm il mono by (simp add: rows_frame_def)
    show ?thesis using md ok' fr o on_p by blast
  qed
qed


lemma rows_frame_slot:
  assumes "rows_frame s s'"
  shows "length (hash (rows s')) = length (hash (rows s))"
    and "j < length (hash (rows s)) \<Longrightarrow> key (hash (rows s') ! j) = key (hash (rows s) ! j)"
    and "j < length (hash (rows s)) \<Longrightarrow>
           terms (payload (hash (rows s') ! j)) = terms (payload (hash (rows s) ! j))"
    and "amcw_sym2var s' k = amcw_sym2var s k"
proof -
  have k: "map key (hash (rows s')) = map key (hash (rows s))"
    and t: "map (\<lambda>r. terms (payload r)) (hash (rows s')) = map (\<lambda>r. terms (payload r)) (hash (rows s))"
    and v: "vars s' = vars s"
    using assms by (simp_all add: rows_frame_def)
  show "length (hash (rows s')) = length (hash (rows s))" using k by (rule map_eq_imp_length_eq)
  show "key (hash (rows s') ! j) = key (hash (rows s) ! j)" if "j < length (hash (rows s))"
    using map_eq_nth [OF k that] .
  show "terms (payload (hash (rows s') ! j)) = terms (payload (hash (rows s) ! j))"
    if "j < length (hash (rows s))"
    using map_eq_nth [OF t that] .
  show "amcw_sym2var s' k = amcw_sym2var s k" using v by (rule sym2var_vars)
qed

lemma delta_ready_frame:
  assumes "rows_frame s s'" "delta_ready s mk"
  shows "delta_ready s' mk"
  using assms(2) rows_frame_slot [OF assms(1)]
  unfolding delta_ready_def live_def by simp

text \<open>One turn of the loop of \<^verbatim>\<open>amcw_delta_edit_constant\<close> on a row that holds the marker.\<close>

lemma delta_body:
  assumes i: "i < length (hash (rows s))" "live (hash (rows s) ! i)" and ok: "lists_ok s"
    and rd: "amcw_isexternal (key (hash (rows s) ! i)) \<longrightarrow>
               amcw_sym2var s (key (hash (rows s) ! i)) \<noteq> None"
  shows "\<exists>s2. (if amcw_isexternal (key (hash (rows s) ! i))
              then (case amcw_sym2var (set_row s i (set_constant (hash (rows s) ! i) c)) (key (hash (rows s) ! i)) of
                      None \<Rightarrow> None
                    | Some p \<Rightarrow> amcw_markdirty (set_row s i (set_constant (hash (rows s) ! i) c)) p)
              else Some (amcw_infeasible (set_row s i (set_constant (hash (rows s) ! i) c)) i)) = Some s2
      \<and> lists_ok s2 \<and> rows_frame s s2 \<and> row_constant (payload (hash (rows s2) ! i)) = c
      \<and> (amcw_isexternal (key (hash (rows s) ! i)) \<longrightarrow>
            (\<exists>p. amcw_sym2var s (key (hash (rows s) ! i)) = Some p \<and> on_dirty_list s2 p))
      \<and> (\<not> amcw_isexternal (key (hash (rows s) ! i)) \<longrightarrow> c < 0 \<longrightarrow> on_infeasible_list s2 i)
      \<and> (\<forall>j. j \<noteq> i \<longrightarrow> hash (rows s2) ! j = hash (rows s) ! j)"
proof -
  let ?r = "hash (rows s) ! i"
  let ?s1 = "set_row s i (set_constant ?r c)"
  note sc = set_constant_lists [OF ok refl, of i c]
  have ok1: "lists_ok ?s1" by (rule sc(1))
  have f1: "rows_frame s ?s1" by (rule sc(2))
  have i1: "i < length (hash (rows ?s1))" using i by (simp add: set_row_def)
  have r1: "hash (rows ?s1) ! i = set_constant ?r c" using i by (simp add: set_row_def)
  have l1: "live (hash (rows ?s1) ! i)" using i unfolding r1 by (simp add: set_constant_def live_def)
  have c1: "row_constant (payload (hash (rows ?s1) ! i)) = c" using i by (simp add: set_row_def)
  have o1: "\<forall>j. j \<noteq> i \<longrightarrow> hash (rows ?s1) ! j = hash (rows s) ! j" by (simp add: set_row_def)
  have sv1: "amcw_sym2var ?s1 k = amcw_sym2var s k" for k
    by (rule sym2var_vars) (simp add: set_row_def)
  show ?thesis
  proof (cases "amcw_isexternal (key ?r)")
    case True
    with rd obtain p where p: "amcw_sym2var s (key ?r) = Some p" by auto
    then have p1: "amcw_sym2var ?s1 (key ?r) = Some p" using sv1 by simp
    from markdirty_lists [OF p1 ok1] obtain s2 where
      m: "amcw_markdirty ?s1 p = Some s2" "lists_ok s2" "rows_frame ?s1 s2" "rows s2 = rows ?s1"
        "on_dirty_list s2 p" by blast
    show ?thesis
      using True p p1 m rows_frame_trans [OF f1 m(3)] c1 o1 by auto
  next
    case False
    note inf = infeasible_lists [OF i1 l1 ok1 refl]
    show ?thesis
      using False inf rows_frame_trans [OF f1] c1 o1 by auto
  qed
qed

lemma delta_loop_spec:
  assumes "distinct is" "lists_ok s" "delta_ready s mk"
  shows "\<exists>s'. delta_loop is s delta mk = Some s' \<and> lists_ok s' \<and> rows_frame s s'
     \<and> (\<forall>j < length (hash (rows s)).
          (j \<in> set is \<and> touched s mk j \<longrightarrow>
              row_constant (payload (hash (rows s') ! j))
                = row_constant (payload (hash (rows s) ! j)) + the (entry_coeff (hash (rows s) ! j) mk) * delta
              \<and> (amcw_isexternal (key (hash (rows s) ! j)) \<longrightarrow>
                    (\<exists>p. amcw_sym2var s (key (hash (rows s) ! j)) = Some p \<and> on_dirty_list s' p))
              \<and> (\<not> amcw_isexternal (key (hash (rows s) ! j)) \<longrightarrow>
                    row_constant (payload (hash (rows s') ! j)) < 0 \<longrightarrow> on_infeasible_list s' j))
        \<and> (\<not> (j \<in> set is \<and> touched s mk j) \<longrightarrow> hash (rows s') ! j = hash (rows s) ! j))"
  using assms
proof (induction "is" arbitrary: s)
  case Nil
  then show ?case by simp
next
  case (Cons i "is")
  let ?r = "hash (rows s) ! i"
  have di: "i \<notin> set is" "distinct is" using Cons.prems(1) by simp_all
  note ok = Cons.prems(2) and rd = Cons.prems(3)
  show ?case
  proof (cases "i < length (hash (rows s)) \<and> touched s mk i")
    case False
    have n: "amcw_gettable (terms (payload ?r)) mk \<noteq> None" if "i < length (hash (rows s))" "live ?r"
      using that rd by (simp add: delta_ready_def)
    have "delta_loop (i # is) s delta mk = delta_loop is s delta mk"
      using False n by (auto simp: touched_def entry_coeff_def Let_def split: option.splits)
    moreover from Cons.IH [OF di(2) ok rd] obtain s' where
      "delta_loop is s delta mk = Some s'" "lists_ok s'" "rows_frame s s'"
      "\<forall>j < length (hash (rows s)).
          (j \<in> set is \<and> touched s mk j \<longrightarrow>
              row_constant (payload (hash (rows s') ! j))
                = row_constant (payload (hash (rows s) ! j)) + the (entry_coeff (hash (rows s) ! j) mk) * delta
              \<and> (amcw_isexternal (key (hash (rows s) ! j)) \<longrightarrow>
                    (\<exists>p. amcw_sym2var s (key (hash (rows s) ! j)) = Some p \<and> on_dirty_list s' p))
              \<and> (\<not> amcw_isexternal (key (hash (rows s) ! j)) \<longrightarrow>
                    row_constant (payload (hash (rows s') ! j)) < 0 \<longrightarrow> on_infeasible_list s' j))
        \<and> (\<not> (j \<in> set is \<and> touched s mk j) \<longrightarrow> hash (rows s') ! j = hash (rows s) ! j)"
      by blast
    ultimately show ?thesis using False di(1) by (intro exI [of _ s']) auto
  next
    case True
    then have i: "i < length (hash (rows s))" and lv: "live ?r" by (simp_all add: touched_def)
    from True obtain e where g: "amcw_gettable (terms (payload ?r)) mk = Some (Some e)"
      by (auto simp: touched_def entry_coeff_def split: option.splits)
    let ?m = "payload (hash (terms (payload ?r)) ! e)"
    have ec: "entry_coeff ?r mk = Some ?m" using g by (simp add: entry_coeff_def)
    let ?c = "row_constant (payload ?r) + ?m * delta"
    have rdi: "amcw_isexternal (key ?r) \<longrightarrow> amcw_sym2var s (key ?r) \<noteq> None"
      using rd i lv by (simp add: delta_ready_def)
    from delta_body [OF i lv ok rdi, of ?c] obtain s2 where
      b: "(if amcw_isexternal (key ?r)
              then (case amcw_sym2var (set_row s i (set_constant ?r ?c)) (key ?r) of
                      None \<Rightarrow> None
                    | Some p \<Rightarrow> amcw_markdirty (set_row s i (set_constant ?r ?c)) p)
              else Some (amcw_infeasible (set_row s i (set_constant ?r ?c)) i)) = Some s2"
      and ok2: "lists_ok s2" and f2: "rows_frame s s2"
      and c2: "row_constant (payload (hash (rows s2) ! i)) = ?c"
      and x2: "amcw_isexternal (key ?r) \<longrightarrow> (\<exists>p. amcw_sym2var s (key ?r) = Some p \<and> on_dirty_list s2 p)"
      and n2: "\<not> amcw_isexternal (key ?r) \<longrightarrow> ?c < 0 \<longrightarrow> on_infeasible_list s2 i"
      and same: "\<forall>j. j \<noteq> i \<longrightarrow> hash (rows s2) ! j = hash (rows s) ! j"
      by blast
    have step: "delta_loop (i # is) s delta mk = delta_loop is s2 delta mk"
      using i lv g b by (simp add: Let_def)
    have rd2: "delta_ready s2 mk" using f2 rd by (rule delta_ready_frame)
    from Cons.IH [OF di(2) ok2 rd2] obtain s' where
      l: "delta_loop is s2 delta mk = Some s'" and ok': "lists_ok s'" and f': "rows_frame s2 s'"
      and ih: "\<forall>j < length (hash (rows s2)).
          (j \<in> set is \<and> touched s2 mk j \<longrightarrow>
              row_constant (payload (hash (rows s') ! j))
                = row_constant (payload (hash (rows s2) ! j)) + the (entry_coeff (hash (rows s2) ! j) mk) * delta
              \<and> (amcw_isexternal (key (hash (rows s2) ! j)) \<longrightarrow>
                    (\<exists>p. amcw_sym2var s2 (key (hash (rows s2) ! j)) = Some p \<and> on_dirty_list s' p))
              \<and> (\<not> amcw_isexternal (key (hash (rows s2) ! j)) \<longrightarrow>
                    row_constant (payload (hash (rows s') ! j)) < 0 \<longrightarrow> on_infeasible_list s' j))
        \<and> (\<not> (j \<in> set is \<and> touched s2 mk j) \<longrightarrow> hash (rows s') ! j = hash (rows s2) ! j)"
      by blast
    have len: "length (hash (rows s2)) = length (hash (rows s))" using f2 by (rule rows_frame_slot(1))
    have sv2: "amcw_sym2var s2 k = amcw_sym2var s k" for k using f2 by (rule rows_frame_slot(4))
    have fr: "rows_frame s s'" using f2 f' by (rule rows_frame_trans)
    have at_i: "hash (rows s') ! i = hash (rows s2) ! i" using ih i len di(1) by auto
    have keep_d: "on_dirty_list s' p" if "on_dirty_list s2 p" for p
      using f' that by (simp add: rows_frame_def)
    have keep_i: "on_infeasible_list s' j" if "on_infeasible_list s2 j" for j
      using f' that by (simp add: rows_frame_def)
    have res: "(j \<in> set (i # is) \<and> touched s mk j \<longrightarrow>
              row_constant (payload (hash (rows s') ! j))
                = row_constant (payload (hash (rows s) ! j)) + the (entry_coeff (hash (rows s) ! j) mk) * delta
              \<and> (amcw_isexternal (key (hash (rows s) ! j)) \<longrightarrow>
                    (\<exists>p. amcw_sym2var s (key (hash (rows s) ! j)) = Some p \<and> on_dirty_list s' p))
              \<and> (\<not> amcw_isexternal (key (hash (rows s) ! j)) \<longrightarrow>
                    row_constant (payload (hash (rows s') ! j)) < 0 \<longrightarrow> on_infeasible_list s' j))
        \<and> (\<not> (j \<in> set (i # is) \<and> touched s mk j) \<longrightarrow> hash (rows s') ! j = hash (rows s) ! j)"
      if j: "j < length (hash (rows s))" for j
    proof (cases "j = i")
      case True
      have "row_constant (payload (hash (rows s') ! i)) = ?c" using at_i c2 by simp
      moreover have "amcw_isexternal (key ?r) \<longrightarrow> (\<exists>p. amcw_sym2var s (key ?r) = Some p \<and> on_dirty_list s' p)"
        using x2 keep_d by blast
      moreover have "\<not> amcw_isexternal (key ?r) \<longrightarrow> ?c < 0 \<longrightarrow> on_infeasible_list s' i"
        using n2 keep_i by blast
      ultimately show ?thesis using True \<open>i < length (hash (rows s)) \<and> touched s mk i\<close> ec by simp
    next
      case False
      have r: "hash (rows s2) ! j = hash (rows s) ! j" using same False by simp
      have t: "touched s2 mk j = touched s mk j" using r by (simp add: touched_def)
      from ih j len have
        "(j \<in> set is \<and> touched s2 mk j \<longrightarrow>
              row_constant (payload (hash (rows s') ! j))
                = row_constant (payload (hash (rows s2) ! j)) + the (entry_coeff (hash (rows s2) ! j) mk) * delta
              \<and> (amcw_isexternal (key (hash (rows s2) ! j)) \<longrightarrow>
                    (\<exists>p. amcw_sym2var s2 (key (hash (rows s2) ! j)) = Some p \<and> on_dirty_list s' p))
              \<and> (\<not> amcw_isexternal (key (hash (rows s2) ! j)) \<longrightarrow>
                    row_constant (payload (hash (rows s') ! j)) < 0 \<longrightarrow> on_infeasible_list s' j))
        \<and> (\<not> (j \<in> set is \<and> touched s2 mk j) \<longrightarrow> hash (rows s') ! j = hash (rows s2) ! j)"
        by simp
      then show ?thesis unfolding r t sv2 using False by simp
    qed
    show ?thesis
      using step l ok' fr res by (intro exI [of _ s']) simp
  qed
qed


lemma slots_distinct: "distinct (slots t)" "j \<in> set (slots t) \<longleftrightarrow> j < length (hash t)"
  by (auto simp: slots_def)

lemma edit_value_lists:
  assumes ok: "lists_ok s" and v: "get_var s p = Some v" and s': "s' = put_var s p (v\<lparr>edit_value := x\<rparr>)"
  shows "lists_ok s'" and "rows s' = rows s" and "amcw_sym2var s' k = amcw_sym2var s k"
    and "get_cons s' q = get_cons s q" and "get_var s' p = Some (v\<lparr>edit_value := x\<rparr>)"
proof -
  have ri: "rows_indexed s" and vi: "vars_indexed s" and io: "inf_list_ok s" and dk: "dirty_list_ok s"
    using ok by (simp_all add: lists_ok_def)
  have o: "rows s' = rows s" "infeasible_rows s' = infeasible_rows s" "vars s' = vars s"
    "dirty_vars s' = dirty_vars s" "cons_mem s' = cons_mem s"
    unfolding s' by (simp_all add: put_var_def)
  have gv: "get_var s' q = (if q = p then Some (v\<lparr>edit_value := x\<rparr>) else get_var s q)" for q
    using v unfolding s' by (auto simp: get_var_def put_var_def nth_list_update split: if_splits)
  have g: "amcw_sym2var s' k = amcw_sym2var s k" for k using o(3) by (rule sym2var_vars)
  have fw: "on_dirty_list s' q" if l: "on_dirty_list s q" for q
  proof (rule dirty_list_mono [OF l])
    show "amcw_sym2var s' k = amcw_sym2var s k" for k by (rule g)
    show "on_dirty_list s' p0"
      if "sym_id (dirty_vars s) \<noteq> 0" "amcw_sym2var s (dirty_vars s) = Some p0" for p0
      using that g o(4) by (auto intro: on_dirty_list.head)
    show "\<exists>v'. get_var s' q = Some v' \<and> dirty_next v' = dirty_next w" if "get_var s q = Some w" for q w
      using that gv v by auto
  qed
  have bw: "on_dirty_list s q" if l: "on_dirty_list s' q" for q
  proof (rule dirty_list_mono [OF l])
    show "amcw_sym2var s k = amcw_sym2var s' k" for k using g by simp
    show "on_dirty_list s p0"
      if "sym_id (dirty_vars s') \<noteq> 0" "amcw_sym2var s' (dirty_vars s') = Some p0" for p0
      using that g o(4) by (auto intro: on_dirty_list.head)
    show "\<exists>v'. get_var s q = Some v' \<and> dirty_next v' = dirty_next w" if "get_var s' q = Some w" for q w
      using that gv v by (auto split: if_splits)
  qed
  have il: "on_infeasible_list s' i = on_infeasible_list s i" for i
    using on_infeasible_list_cong [of s i s'] on_infeasible_list_cong [of s' i s] o by auto
  have ri': "rows_indexed s'" using ri o(1) by (simp add: rows_indexed_def)
  have io': "inf_list_ok s'" using io il o(1) by (simp add: inf_list_ok_def)
  have dk': "dirty_list_ok s'"
    unfolding dirty_list_ok_def
  proof (intro conjI allI impI)
    fix q assume "on_dirty_list s' q"
    then have "on_dirty_list s q" by (rule bw)
    then obtain w where "get_var s q = Some w" "is_dirty w" using dk by (auto simp: dirty_list_ok_def)
    then show "\<exists>w. get_var s' q = Some w \<and> is_dirty w" using gv v by (auto simp: is_dirty_def)
  next
    fix q w assume q: "get_var s' q = Some w" "is_dirty w"
    then have "\<exists>w0. get_var s q = Some w0 \<and> is_dirty w0"
      using gv v by (auto simp: is_dirty_def split: if_splits)
    then have "on_dirty_list s q" using dk by (auto simp: dirty_list_ok_def)
    then show "on_dirty_list s' q" by (rule fw)
  qed
  have vi': "vars_indexed s'"
    unfolding vars_indexed_def
  proof (intro allI impI)
    fix e assume e: "e < length (hash (vars s'))" "live (hash (vars s') ! e)"
    let ?q = "payload (hash (vars s) ! e)"
    from e vi o(3) obtain w where w: "get_var s ?q = Some w" "amcw_sym2var s (sym w) = Some ?q"
      by (auto simp: vars_indexed_def split: option.splits)
    show "case get_var s' (payload (hash (vars s') ! e)) of None \<Rightarrow> False
          | Some v \<Rightarrow> amcw_sym2var s' (sym v) = Some (payload (hash (vars s') ! e))"
      using gv g w v o(3) by (cases "?q = p") simp_all
  qed
  show "lists_ok s'" using ri' vi' io' dk' by (simp add: lists_ok_def)
  show "rows s' = rows s" by (rule o(1))
  show "amcw_sym2var s' k = amcw_sym2var s k" by (rule g)
  show "get_cons s' q = get_cons s q" using o(5) by (simp add: get_cons_def)
  show "get_var s' p = Some (v\<lparr>edit_value := x\<rparr>)" using gv by simp
qed

lemma delta_edit_basic:
  assumes i: "i < length (hash (rows s))" "live (hash (rows s) ! i)" and ok: "lists_ok s"
    and s1: "s1 = amcw_infeasible (set_row s i (set_constant (hash (rows s) ! i) c)) i"
  shows "lists_ok s1 \<and> rows_frame s s1
       \<and> row_constant (payload (hash (rows s1) ! i)) = c
       \<and> (c < 0 \<longrightarrow> on_infeasible_list s1 i)
       \<and> (\<forall>j. j \<noteq> i \<longrightarrow> hash (rows s1) ! j = hash (rows s) ! j)"
proof -
  let ?s' = "set_row s i (set_constant (hash (rows s) ! i) c)"
  note sc = set_constant_lists [OF ok refl, of i c]
  have i1: "i < length (hash (rows ?s'))" using i by (simp add: set_row_def)
  have r1: "hash (rows ?s') ! i = set_constant (hash (rows s) ! i) c" using i by (simp add: set_row_def)
  have l1: "live (hash (rows ?s') ! i)" using i unfolding r1 by (simp add: set_constant_def live_def)
  have c1: "row_constant (payload (hash (rows ?s') ! i)) = c" using i by (simp add: set_row_def)
  have o1: "\<forall>j. j \<noteq> i \<longrightarrow> hash (rows ?s') ! j = hash (rows s) ! j" by (simp add: set_row_def)
  note inf = infeasible_lists [OF i1 l1 sc(1) s1]
  show ?thesis
    using inf rows_frame_trans [OF sc(2)] c1 o1 by auto
qed


text \<open>States with both lists empty and no mark are well formed.\<close>

lemma all_less_upt: "(\<forall>j<n. P j) = list_all P [0..<n]"
  by (auto simp: list_all_iff)

lemma lists_ok_empty:
  assumes "sym_id (infeasible_rows s) = 0" "sym_id (dirty_vars s) = 0"
    and "list_all (\<lambda>r. \<not> inf_tagged r) (hash (rows s))"
    and "list_all (\<lambda>v. \<not> is_dirty v) (var_mem s)"
    and "rows_indexed s" "vars_indexed s"
  shows "lists_ok s"
proof -
  have a: "\<not> on_infeasible_list s i" for i
  proof
    assume "on_infeasible_list s i"
    then show False using assms(1) by (induction rule: on_infeasible_list.induct) auto
  qed
  have b: "\<not> on_dirty_list s p" for p
  proof
    assume "on_dirty_list s p"
    then show False using assms(2) by (induction rule: on_dirty_list.induct) auto
  qed
  have c: "\<not> inf_tagged (hash (rows s) ! j)" if "j < length (hash (rows s))" for j
    using assms(3) that by (simp add: list_all_length)
  have d: "\<not> is_dirty v" if "get_var s p = Some v" for p v
    using assms(4) that by (auto simp: list_all_length get_var_def split: if_splits)
  show ?thesis
    using a b c d assms(5,6) by (auto simp: lists_ok_def inf_list_ok_def dirty_list_ok_def)
qed

text \<open>
  Claim C5. For a variable \<open>v\<close> with an installed edit constraint \<open>c\<close>, in a solver
  with well-formed tables and lists where the lookups end, \<^verbatim>\<open>amcw_suggest\<close> sets
  \<open>delta = x - edit_value v\<close>, stores \<open>x\<close> in \<open>edit_value\<close>, runs
  \<^verbatim>\<open>amcw_delta_edit_constant\<close> with that \<open>delta\<close> and then the dual optimisation.
  \<^verbatim>\<open>amcw_delta_edit_constant\<close> returns. If the marker of \<open>c\<close> keys a row, the
  constant of that row is decreased by \<open>delta\<close>, the row is on the infeasible list
  afterwards if its constant is negative, and no other row changes; otherwise, if the other
  symbol of \<open>c\<close> keys a row, the same holds with the constant increased by \<open>delta\<close>;
  otherwise every row in which the marker is found as a term has its constant increased by
  the coefficient of the marker times \<open>delta\<close>, the variable of such a row with an
  external key is on the dirty list afterwards, such a row with another key is on the
  infeasible list afterwards if its constant is negative, and every other slot of the tableau
  is unchanged. Being on a list is being reached from the head of the list. In every case
  the tables and lists stay well formed, the rows keep their keys and terms, and what was on
  a list stays on it.
\<close>

theorem suggest_applies_delta:
  assumes "var \<noteq> 0" and "get_var solver var = Some v" and "constraint v \<noteq> 0"
    and "get_cons solver (constraint v) = Some c"
    and "lists_ok solver" and "delta_ready solver (marker c)"
    and "amcw_gettable (rows solver) (marker c) \<noteq> None"
    and "amcw_gettable (rows solver) (other c) \<noteq> None"
    and "s0 = put_var solver var (v\<lparr>edit_value := x\<rparr>)"
    and "delta = x - edit_value v"
  shows "amcw_suggest solver var x =
           do {
             s3 \<leftarrow> amcw_delta_edit_constant s0 delta (constraint v);
             s4 \<leftarrow> amcw_dual_optimize s3;
             if auto_update s4 \<noteq> 0 then amcw_updatevars s4 else Some s4
           }
       \<and> get_var s0 var = Some (v\<lparr>edit_value := x\<rparr>)
       \<and> rows s0 = rows solver
       \<and> (\<exists>s1. amcw_delta_edit_constant s0 delta (constraint v) = Some s1
             \<and> lists_ok s1 \<and> rows_frame s0 s1
             \<and> (\<forall>i. amcw_gettable (rows solver) (marker c) = Some (Some i) \<longrightarrow>
                   row_constant (payload (hash (rows s1) ! i))
                     = row_constant (payload (hash (rows solver) ! i)) - delta
                   \<and> (row_constant (payload (hash (rows s1) ! i)) < 0 \<longrightarrow> on_infeasible_list s1 i)
                   \<and> (\<forall>j. j \<noteq> i \<longrightarrow> hash (rows s1) ! j = hash (rows solver) ! j))
             \<and> (\<forall>i. amcw_gettable (rows solver) (marker c) = Some None
                     \<and> amcw_gettable (rows solver) (other c) = Some (Some i) \<longrightarrow>
                   row_constant (payload (hash (rows s1) ! i))
                     = row_constant (payload (hash (rows solver) ! i)) + delta
                   \<and> (row_constant (payload (hash (rows s1) ! i)) < 0 \<longrightarrow> on_infeasible_list s1 i)
                   \<and> (\<forall>j. j \<noteq> i \<longrightarrow> hash (rows s1) ! j = hash (rows solver) ! j))
             \<and> (amcw_gettable (rows solver) (marker c) = Some None
                     \<and> amcw_gettable (rows solver) (other c) = Some None \<longrightarrow>
                   (\<forall>j < length (hash (rows solver)).
                      (touched solver (marker c) j \<longrightarrow>
                         row_constant (payload (hash (rows s1) ! j))
                           = row_constant (payload (hash (rows solver) ! j))
                             + the (entry_coeff (hash (rows solver) ! j) (marker c)) * delta
                         \<and> (amcw_isexternal (key (hash (rows solver) ! j)) \<longrightarrow>
                               (\<exists>p. amcw_sym2var solver (key (hash (rows solver) ! j)) = Some p
                                  \<and> on_dirty_list s1 p))
                         \<and> (\<not> amcw_isexternal (key (hash (rows solver) ! j)) \<longrightarrow>
                               row_constant (payload (hash (rows s1) ! j)) < 0 \<longrightarrow>
                               on_infeasible_list s1 j))
                      \<and> (\<not> touched solver (marker c) j \<longrightarrow>
                            hash (rows s1) ! j = hash (rows solver) ! j))))"
proof -
  note ev = edit_value_lists [OF assms(5) assms(2) assms(9)]
  have ok0: "lists_ok s0" by (rule ev(1))
  have r0: "rows s0 = rows solver" by (rule ev(2))
  have sv0: "amcw_sym2var s0 k = amcw_sym2var solver k" for k by (rule ev(3))
  have c0: "get_cons s0 (constraint v) = Some c" using assms(4) ev(4) by simp
  have g0: "get_var s0 var = Some (v\<lparr>edit_value := x\<rparr>)" by (rule ev(5))
  have rd0: "delta_ready s0 (marker c)"
    using assms(6) r0 sv0 by (simp add: delta_ready_def)
  have t0: "touched s0 (marker c) j = touched solver (marker c) j" for j
    using r0 by (simp add: touched_def)
  have eq: "amcw_suggest solver var x =
           do {
             s3 \<leftarrow> amcw_delta_edit_constant s0 delta (constraint v);
             s4 \<leftarrow> amcw_dual_optimize s3;
             if auto_update s4 \<noteq> 0 then amcw_updatevars s4 else Some s4
           }"
    using assms(1,2,3,9,10) by (simp add: amcw_suggest_def Let_def)
  consider (mk) i where "amcw_gettable (rows solver) (marker c) = Some (Some i)"
    | (ot) i where "amcw_gettable (rows solver) (marker c) = Some None"
        "amcw_gettable (rows solver) (other c) = Some (Some i)"
    | (lp) "amcw_gettable (rows solver) (marker c) = Some None"
        "amcw_gettable (rows solver) (other c) = Some None"
    using assms(7,8) by (cases "amcw_gettable (rows solver) (marker c)";
      cases "amcw_gettable (rows solver) (other c)") auto
  then have "\<exists>s1. amcw_delta_edit_constant s0 delta (constraint v) = Some s1
             \<and> lists_ok s1 \<and> rows_frame s0 s1
             \<and> (\<forall>i. amcw_gettable (rows solver) (marker c) = Some (Some i) \<longrightarrow>
                   row_constant (payload (hash (rows s1) ! i))
                     = row_constant (payload (hash (rows solver) ! i)) - delta
                   \<and> (row_constant (payload (hash (rows s1) ! i)) < 0 \<longrightarrow> on_infeasible_list s1 i)
                   \<and> (\<forall>j. j \<noteq> i \<longrightarrow> hash (rows s1) ! j = hash (rows solver) ! j))
             \<and> (\<forall>i. amcw_gettable (rows solver) (marker c) = Some None
                     \<and> amcw_gettable (rows solver) (other c) = Some (Some i) \<longrightarrow>
                   row_constant (payload (hash (rows s1) ! i))
                     = row_constant (payload (hash (rows solver) ! i)) + delta
                   \<and> (row_constant (payload (hash (rows s1) ! i)) < 0 \<longrightarrow> on_infeasible_list s1 i)
                   \<and> (\<forall>j. j \<noteq> i \<longrightarrow> hash (rows s1) ! j = hash (rows solver) ! j))
             \<and> (amcw_gettable (rows solver) (marker c) = Some None
                     \<and> amcw_gettable (rows solver) (other c) = Some None \<longrightarrow>
                   (\<forall>j < length (hash (rows solver)).
                      (touched solver (marker c) j \<longrightarrow>
                         row_constant (payload (hash (rows s1) ! j))
                           = row_constant (payload (hash (rows solver) ! j))
                             + the (entry_coeff (hash (rows solver) ! j) (marker c)) * delta
                         \<and> (amcw_isexternal (key (hash (rows solver) ! j)) \<longrightarrow>
                               (\<exists>p. amcw_sym2var solver (key (hash (rows solver) ! j)) = Some p
                                  \<and> on_dirty_list s1 p))
                         \<and> (\<not> amcw_isexternal (key (hash (rows solver) ! j)) \<longrightarrow>
                               row_constant (payload (hash (rows s1) ! j)) < 0 \<longrightarrow>
                               on_infeasible_list s1 j))
                      \<and> (\<not> touched solver (marker c) j \<longrightarrow>
                            hash (rows s1) ! j = hash (rows solver) ! j)))"
  proof cases
    case mk
    have i: "i < length (hash (rows s0))" "live (hash (rows s0) ! i)"
      using gettable_Some [OF mk] r0 by simp_all
    let ?s1 = "amcw_infeasible (set_row s0 i (set_constant (hash (rows s0) ! i)
                 (row_constant (payload (hash (rows s0) ! i)) - delta))) i"
    have "amcw_delta_edit_constant s0 delta (constraint v) = Some ?s1"
      using mk c0 r0 by (simp add: amcw_delta_edit_constant_def Let_def)
    moreover note delta_edit_basic [OF i ok0 refl, of "row_constant (payload (hash (rows s0) ! i)) - delta"]
    ultimately show ?thesis using mk by (intro exI [of _ ?s1]) (simp add: r0)
  next
    case ot
    have i: "i < length (hash (rows s0))" "live (hash (rows s0) ! i)"
      using gettable_Some [OF ot(2)] r0 by simp_all
    let ?s1 = "amcw_infeasible (set_row s0 i (set_constant (hash (rows s0) ! i)
                 (row_constant (payload (hash (rows s0) ! i)) + delta))) i"
    have "amcw_delta_edit_constant s0 delta (constraint v) = Some ?s1"
      using ot c0 r0 by (simp add: amcw_delta_edit_constant_def Let_def)
    moreover note delta_edit_basic [OF i ok0 refl, of "row_constant (payload (hash (rows s0) ! i)) + delta"]
    ultimately show ?thesis using ot by (intro exI [of _ ?s1]) (simp add: r0)
  next
    case lp
    from delta_loop_spec [OF slots_distinct(1) ok0 rd0, of "rows s0" delta] obtain s1 where
      l: "delta_loop (slots (rows s0)) s0 delta (marker c) = Some s1"
      and k: "lists_ok s1" "rows_frame s0 s1"
      and sp: "\<forall>j < length (hash (rows s0)).
          (j \<in> set (slots (rows s0)) \<and> touched s0 (marker c) j \<longrightarrow>
              row_constant (payload (hash (rows s1) ! j))
                = row_constant (payload (hash (rows s0) ! j))
                  + the (entry_coeff (hash (rows s0) ! j) (marker c)) * delta
              \<and> (amcw_isexternal (key (hash (rows s0) ! j)) \<longrightarrow>
                    (\<exists>p. amcw_sym2var s0 (key (hash (rows s0) ! j)) = Some p \<and> on_dirty_list s1 p))
              \<and> (\<not> amcw_isexternal (key (hash (rows s0) ! j)) \<longrightarrow>
                    row_constant (payload (hash (rows s1) ! j)) < 0 \<longrightarrow> on_infeasible_list s1 j))
        \<and> (\<not> (j \<in> set (slots (rows s0)) \<and> touched s0 (marker c) j) \<longrightarrow>
              hash (rows s1) ! j = hash (rows s0) ! j)"
      by blast
    have "amcw_delta_edit_constant s0 delta (constraint v) = Some s1"
      using lp l c0 r0 by (simp add: amcw_delta_edit_constant_def)
    moreover have "\<forall>j < length (hash (rows solver)).
                      (touched solver (marker c) j \<longrightarrow>
                         row_constant (payload (hash (rows s1) ! j))
                           = row_constant (payload (hash (rows solver) ! j))
                             + the (entry_coeff (hash (rows solver) ! j) (marker c)) * delta
                         \<and> (amcw_isexternal (key (hash (rows solver) ! j)) \<longrightarrow>
                               (\<exists>p. amcw_sym2var solver (key (hash (rows solver) ! j)) = Some p
                                  \<and> on_dirty_list s1 p))
                         \<and> (\<not> amcw_isexternal (key (hash (rows solver) ! j)) \<longrightarrow>
                               row_constant (payload (hash (rows s1) ! j)) < 0 \<longrightarrow>
                               on_infeasible_list s1 j))
                      \<and> (\<not> touched solver (marker c) j \<longrightarrow>
                            hash (rows s1) ! j = hash (rows solver) ! j)"
      using sp unfolding slots_distinct(2) t0 sv0 r0 by simp
    ultimately show ?thesis using lp k by (intro exI [of _ s1]) simp
  qed
  then show ?thesis using eq g0 r0 by blast
qed


theorem suggest_applies_delta_witness:
  "\<not> is_dirty (the (get_var (the ex_bound) 1))
   \<and> \<not> inf_tagged (hash (rows (the ex_bound)) ! 2)
   \<and> amcw_delta_edit_constant
         (put_var (the ex_bound) 1 (the (get_var (the ex_bound) 1)\<lparr>edit_value := 150\<rparr>)) 150 2 \<noteq> None
   \<and> row_constant (payload (hash (rows (the (amcw_delta_edit_constant
         (put_var (the ex_bound) 1 (the (get_var (the ex_bound) 1)\<lparr>edit_value := 150\<rparr>)) 150 2))) ! 1)) = 150
   \<and> on_dirty_list (the (amcw_delta_edit_constant
         (put_var (the ex_bound) 1 (the (get_var (the ex_bound) 1)\<lparr>edit_value := 150\<rparr>)) 150 2)) 1
   \<and> row_constant (payload (hash (rows (the (amcw_delta_edit_constant
         (put_var (the ex_bound) 1 (the (get_var (the ex_bound) 1)\<lparr>edit_value := 150\<rparr>)) 150 2))) ! 2)) = - 50
   \<and> on_infeasible_list (the (amcw_delta_edit_constant
         (put_var (the ex_bound) 1 (the (get_var (the ex_bound) 1)\<lparr>edit_value := 150\<rparr>)) 150 2)) 2
   \<and> amcw_gettable (rows (the ex_pushed)) \<lparr>sym_id = 4, sym_type = AMCW_ERROR\<rparr> = Some (Some 0)
   \<and> row_constant (payload (hash (rows (the ex_pushed)) ! 0)) = 50
   \<and> \<not> inf_tagged (hash (rows (the ex_pushed)) ! 0)
   \<and> row_constant (payload (hash (rows (the (amcw_delta_edit_constant
         (put_var (the ex_pushed) 1 (the (get_var (the ex_pushed) 1)\<lparr>edit_value := 50\<rparr>)) (- 100) 2))) ! 0)) = - 50
   \<and> on_infeasible_list (the (amcw_delta_edit_constant
         (put_var (the ex_pushed) 1 (the (get_var (the ex_pushed) 1)\<lparr>edit_value := 50\<rparr>)) (- 100) 2)) 0"
proof -
  let ?a = "the ex_bound"
  let ?v = "the (get_var ?a 1)"
  let ?c = "the (get_cons ?a 2)"
  let ?pa = "put_var ?a 1 (?v\<lparr>edit_value := 150\<rparr>)"
  let ?mk = "\<lparr>sym_id = 3, sym_type = AMCW_ERROR\<rparr>"
  let ?ot = "\<lparr>sym_id = 4, sym_type = AMCW_ERROR\<rparr>"
  have a1: "(1::nat) \<noteq> 0" by simp
  have a2: "get_var ?a 1 = Some ?v" by code_simp
  have cv: "constraint ?v = 2" by code_simp
  have a3: "constraint ?v \<noteq> 0" unfolding cv by simp
  have a4: "get_cons ?a (constraint ?v) = Some ?c" unfolding cv by code_simp
  have mk: "marker ?c = ?mk" by code_simp
  have ot: "other ?c = ?ot" by code_simp
  have a5: "lists_ok ?a"
  proof (rule lists_ok_empty)
    show "sym_id (infeasible_rows ?a) = 0" by code_simp
    show "sym_id (dirty_vars ?a) = 0" by code_simp
    show "list_all (\<lambda>r. \<not> inf_tagged r) (hash (rows ?a))" by code_simp
    show "list_all (\<lambda>v. \<not> is_dirty v) (var_mem ?a)" by code_simp
    show "rows_indexed ?a" unfolding rows_indexed_def all_less_upt by code_simp
    show "vars_indexed ?a" unfolding vars_indexed_def all_less_upt by code_simp
  qed
  have a6: "delta_ready ?a (marker ?c)" unfolding mk delta_ready_def all_less_upt by code_simp
  have a7: "amcw_gettable (rows ?a) (marker ?c) \<noteq> None" unfolding mk by code_simp
  have a8: "amcw_gettable (rows ?a) (other ?c) \<noteq> None" unfolding ot by code_simp
  have a10: "(150::rat) = 150 - edit_value ?v" by code_simp
  have g1: "amcw_gettable (rows ?a) (marker ?c) = Some None" unfolding mk by code_simp
  have g2: "amcw_gettable (rows ?a) (other ?c) = Some None" unfolding ot by code_simp
  have l: "(1::nat) < length (hash (rows ?a))" "(2::nat) < length (hash (rows ?a))" by code_simp+
  have t: "touched ?a (marker ?c) 1" "touched ?a (marker ?c) 2" unfolding mk by code_simp+
  have k: "amcw_isexternal (key (hash (rows ?a) ! 1))" "\<not> amcw_isexternal (key (hash (rows ?a) ! 2))"
    by code_simp+
  have sv: "amcw_sym2var ?a (key (hash (rows ?a) ! 1)) = Some 1" by code_simp
  have cs: "row_constant (payload (hash (rows ?a) ! 1)) = 0" "row_constant (payload (hash (rows ?a) ! 2)) = 100"
    by code_simp+
  have co: "the (entry_coeff (hash (rows ?a) ! 1) (marker ?c)) = 1"
    "the (entry_coeff (hash (rows ?a) ! 2) (marker ?c)) = - 1"
    unfolding mk by code_simp+
  have n1: "\<not> is_dirty ?v" by code_simp
  have n2: "\<not> inf_tagged (hash (rows ?a) ! 2)" by code_simp
  from suggest_applies_delta [OF a1 a2 a3 a4 a5 a6 a7 a8 refl a10] obtain s1 where
    r: "amcw_delta_edit_constant ?pa 150 (constraint ?v) = Some s1"
    and sp: "amcw_gettable (rows ?a) (marker ?c) = Some None
               \<and> amcw_gettable (rows ?a) (other ?c) = Some None \<longrightarrow>
             (\<forall>j < length (hash (rows ?a)).
                (touched ?a (marker ?c) j \<longrightarrow>
                   row_constant (payload (hash (rows s1) ! j))
                     = row_constant (payload (hash (rows ?a) ! j))
                       + the (entry_coeff (hash (rows ?a) ! j) (marker ?c)) * 150
                   \<and> (amcw_isexternal (key (hash (rows ?a) ! j)) \<longrightarrow>
                         (\<exists>p. amcw_sym2var ?a (key (hash (rows ?a) ! j)) = Some p \<and> on_dirty_list s1 p))
                   \<and> (\<not> amcw_isexternal (key (hash (rows ?a) ! j)) \<longrightarrow>
                         row_constant (payload (hash (rows s1) ! j)) < 0 \<longrightarrow> on_infeasible_list s1 j))
                \<and> (\<not> touched ?a (marker ?c) j \<longrightarrow> hash (rows s1) ! j = hash (rows ?a) ! j))"
    by blast
  have r': "amcw_delta_edit_constant ?pa 150 2 = Some s1" using r unfolding cv .
  note x1 = sp [rule_format, OF conjI [OF g1 g2] l(1), THEN conjunct1, rule_format, OF t(1)]
  note x2 = sp [rule_format, OF conjI [OF g1 g2] l(2), THEN conjunct1, rule_format, OF t(2)]
  have w1: "row_constant (payload (hash (rows s1) ! 1)) = 150"
    using x1 [THEN conjunct1] unfolding cs co by simp
  have "\<exists>p. amcw_sym2var ?a (key (hash (rows ?a) ! 1)) = Some p \<and> on_dirty_list s1 p"
    using x1 [THEN conjunct2, THEN conjunct1] k(1) by blast
  then have w2: "on_dirty_list s1 1" unfolding sv by simp
  have w3: "row_constant (payload (hash (rows s1) ! 2)) = - 50"
    using x2 [THEN conjunct1] unfolding cs co by simp
  have w4: "on_infeasible_list s1 2"
    using x2 [THEN conjunct2, THEN conjunct2] k(2) w3 by simp
  let ?b = "the ex_pushed"
  let ?w = "the (get_var ?b 1)"
  let ?d = "the (get_cons ?b 2)"
  let ?pb = "put_var ?b 1 (?w\<lparr>edit_value := 50\<rparr>)"
  have b2: "get_var ?b 1 = Some ?w" by code_simp
  have cw: "constraint ?w = 2" by code_simp
  have b3: "constraint ?w \<noteq> 0" unfolding cw by simp
  have b4: "get_cons ?b (constraint ?w) = Some ?d" unfolding cw by code_simp
  have mkb: "marker ?d = ?mk" by code_simp
  have otb: "other ?d = ?ot" by code_simp
  have b5: "lists_ok ?b"
  proof (rule lists_ok_empty)
    show "sym_id (infeasible_rows ?b) = 0" by code_simp
    show "sym_id (dirty_vars ?b) = 0" by code_simp
    show "list_all (\<lambda>r. \<not> inf_tagged r) (hash (rows ?b))" by code_simp
    show "list_all (\<lambda>v. \<not> is_dirty v) (var_mem ?b)" by code_simp
    show "rows_indexed ?b" unfolding rows_indexed_def all_less_upt by code_simp
    show "vars_indexed ?b" unfolding vars_indexed_def all_less_upt by code_simp
  qed
  have b6: "delta_ready ?b (marker ?d)" unfolding mkb delta_ready_def all_less_upt by code_simp
  have b7: "amcw_gettable (rows ?b) (marker ?d) \<noteq> None" unfolding mkb by code_simp
  have b8: "amcw_gettable (rows ?b) (other ?d) \<noteq> None" unfolding otb by code_simp
  have b10: "(- 100::rat) = 50 - edit_value ?w" by code_simp
  have h1: "amcw_gettable (rows ?b) (marker ?d) = Some None" unfolding mkb by code_simp
  have h2: "amcw_gettable (rows ?b) ?ot = Some (Some 0)" by code_simp
  have cb: "row_constant (payload (hash (rows ?b) ! 0)) = 50" by code_simp
  have n3: "\<not> inf_tagged (hash (rows ?b) ! 0)" by code_simp
  from suggest_applies_delta [OF a1 b2 b3 b4 b5 b6 b7 b8 refl b10] obtain s2 where
    q: "amcw_delta_edit_constant ?pb (- 100) (constraint ?w) = Some s2"
    and sq: "\<forall>i. amcw_gettable (rows ?b) (marker ?d) = Some None
                     \<and> amcw_gettable (rows ?b) (other ?d) = Some (Some i) \<longrightarrow>
                   row_constant (payload (hash (rows s2) ! i))
                     = row_constant (payload (hash (rows ?b) ! i)) + - 100
                   \<and> (row_constant (payload (hash (rows s2) ! i)) < 0 \<longrightarrow> on_infeasible_list s2 i)
                   \<and> (\<forall>j. j \<noteq> i \<longrightarrow> hash (rows s2) ! j = hash (rows ?b) ! j)"
    by blast
  have q': "amcw_delta_edit_constant ?pb (- 100) 2 = Some s2" using q unfolding cw .
  have h2': "amcw_gettable (rows ?b) (other ?d) = Some (Some 0)" unfolding otb by (rule h2)
  note y = sq [rule_format, OF conjI [OF h1 h2']]
  have w5: "row_constant (payload (hash (rows s2) ! 0)) = - 50"
    using y [THEN conjunct1] unfolding cb by simp
  have w6: "on_infeasible_list s2 0"
    using y [THEN conjunct2, THEN conjunct1] w5 by simp
  show ?thesis
    using n1 n2 w1 w2 w3 w4 h2 cb n3 w5 w6 unfolding r' q' by simp
qed

end
